theory Spec2Isabelle
  imports Complex_Main "HOL-Library.AList"
begin

section \<open>Job names for AWS Batch: \<open>_ensafen_name\<close>\<close>

text \<open>
  Python strings are modelled as HOL strings. A HOL character is one code point below 256,
  so the model covers the Latin-1 part of Python's \<open>str\<close>; \<open>isalnum\<close> below is Python's
  \<open>str.isalnum\<close> on exactly these code points (digits, ASCII letters, and the Latin-1
  letters and numeric characters).
\<close>

definition isalnum :: "char \<Rightarrow> bool" where
  "isalnum c =
     (let n = (of_char c :: nat) in
        (48 \<le> n \<and> n \<le> 57) \<or> (65 \<le> n \<and> n \<le> 90) \<or> (97 \<le> n \<and> n \<le> 122) \<or>
        n \<in> set [170, 178, 179, 181, 185, 186, 188, 189, 190] \<or>
        (192 \<le> n \<and> n \<le> 214) \<or> (216 \<le> n \<and> n \<le> 246) \<or> 248 \<le> n)"

text \<open>\<open>input_name.replace(" ", "-")\<close>\<close>

definition replace_space :: "string \<Rightarrow> string" where
  "replace_space s = map (\<lambda>c. if c = CHR '' '' then CHR ''-'' else c) s"

text \<open>
  \<^verbatim>\<open>
  input_name = input_name.replace(" ", "-")
  kept_chars = [c for c in input_name if c.isalnum() or c == '-' or c == '_']
  if len(kept_chars) == 0 or not kept_chars[0].isalnum():
      kept_chars = ['j'] + kept_chars
  kept_chars = kept_chars[:128]
  return ''.join(kept_chars)
  \<close>
\<close>

definition ensafen_name :: "string \<Rightarrow> string" where
  "ensafen_name input_name =
     (let input_name1 = replace_space input_name;
          kept_chars = filter (\<lambda>c. isalnum c \<or> c = CHR ''-'' \<or> c = CHR ''_'') input_name1;
          kept_chars1 =
            (if (case kept_chars of [] \<Rightarrow> True | c # _ \<Rightarrow> \<not> isalnum c)
             then CHR ''j'' # kept_chars else kept_chars);
          kept_chars2 = take 128 kept_chars1
      in kept_chars2)"

subsection \<open>The sanitization algorithm as the specification words it\<close>

text \<open>
  The four steps of the specification, one definition each, in the order the
  specification lists them; \<open>spec_sanitize\<close> chains them.
\<close>

definition spec_allowed :: "char \<Rightarrow> bool" where
  "spec_allowed c = (isalnum c \<or> c = CHR ''-'' \<or> c = CHR ''_'')"

definition spec_replace_spaces :: "string \<Rightarrow> string" where
  "spec_replace_spaces s = map (\<lambda>c. if c = CHR '' '' then CHR ''-'' else c) s"

definition spec_drop_disallowed :: "string \<Rightarrow> string" where
  "spec_drop_disallowed s = filter spec_allowed s"

definition spec_filler :: char where
  "spec_filler = CHR ''j''"

fun spec_prepend_filler :: "string \<Rightarrow> string" where
  "spec_prepend_filler [] = [spec_filler]"
| "spec_prepend_filler (c # cs) = (if isalnum c then c # cs else spec_filler # c # cs)"

definition spec_max_length :: nat where
  "spec_max_length = 128"

definition spec_truncate :: "string \<Rightarrow> string" where
  "spec_truncate s = take spec_max_length s"

definition spec_sanitize :: "string \<Rightarrow> string" where
  "spec_sanitize s =
     spec_truncate (spec_prepend_filler (spec_drop_disallowed (spec_replace_spaces s)))"

section \<open>Resource requirements sent to AWS Batch\<close>

definition MIN_REQUESTABLE_MIB :: int where
  "MIN_REQUESTABLE_MIB = 4"

definition MIN_REQUESTABLE_CORES :: int where
  "MIN_REQUESTABLE_CORES = 1"

text \<open>
  Modelled from the spec: \<open>toil.lib.conversions.b_to_mib\<close> is not part of the sources at
  hand; the specification's rounding rule reads "ceil(m in MiB)", so the conversion is a
  division by \<open>2 ^ 20\<close>. Python computes it in floating point; the model is exact.
\<close>

definition b_to_mib :: "int \<Rightarrow> rat" where
  "b_to_mib n = of_int n / 1048576"

text \<open>
  The fields of a \<open>JobDescription\<close> that \<open>issueBatchJob\<close> reads; \<open>job_str\<close> is the text
  \<open>str(job_desc)\<close>.
\<close>

record job_description =
  job_str :: string
  command :: string
  memory :: int
  cores :: rat
  disk :: int

text \<open>Python's \<open>str\<close> on an integer: decimal digits, a minus sign when negative.\<close>

definition digit_char :: "nat \<Rightarrow> char" where
  "digit_char d = ''0123456789'' ! d"

fun str_nat :: "nat \<Rightarrow> string" where
  "str_nat n = (if n < 10 then [digit_char n] else str_nat (n div 10) @ [digit_char (n mod 10)])"

declare str_nat.simps [simp del]

definition str_int :: "int \<Rightarrow> string" where
  "str_int i = (if i < 0 then CHR ''-'' # str_nat (nat (- i)) else str_nat (nat i))"

text \<open>
  \<^verbatim>\<open>
  'resourceRequirements': [
      {'type': 'MEMORY', 'value': str(max(MIN_REQUESTABLE_MIB, math.ceil(b_to_mib(job_desc.memory))))},
      {'type': 'VCPU', 'value': str(max(MIN_REQUESTABLE_CORES, math.ceil(job_desc.cores)))}
  ]
  \<close>
  The two numbers are named so that they can be compared with the request before \<open>str\<close>
  turns them into text.
\<close>

definition memory_mib :: "job_description \<Rightarrow> int" where
  "memory_mib job_desc = max MIN_REQUESTABLE_MIB \<lceil>b_to_mib (memory job_desc)\<rceil>"

definition vcpus :: "job_description \<Rightarrow> int" where
  "vcpus job_desc = max MIN_REQUESTABLE_CORES \<lceil>cores job_desc\<rceil>"

definition resourceRequirements :: "job_description \<Rightarrow> (string \<times> string) list" where
  "resourceRequirements job_desc =
     [(''MEMORY'', str_int (memory_mib job_desc)), (''VCPU'', str_int (vcpus job_desc))]"

section \<open>Exit codes from LSF command output: \<open>getJobExitCode\<close>\<close>

text \<open>Python exceptions that the modelled code can raise.\<close>

datatype py_error =
  KeyError | TypeError | BotoServerError | ClientError | InsufficientSystemResources

text \<open>
  \<open>line.find(marker) > -1\<close>: the marker occurs in the line as a contiguous substring.
\<close>

fun starts_with :: "string \<Rightarrow> string \<Rightarrow> bool" where
  "starts_with [] ys = True"
| "starts_with (x # xs) [] = False"
| "starts_with (x # xs) (y # ys) = (x = y \<and> starts_with xs ys)"

fun found :: "string \<Rightarrow> string \<Rightarrow> bool" where
  "found marker [] = (marker = [])"
| "found marker (c # cs) = (starts_with marker (c # cs) \<or> found marker cs)"

text \<open>
  How a \<open>for\<close> loop over the lines of a command's output ends: with a \<open>return\<close> from the
  function, or by running out of lines (carrying the loop's \<open>started\<close> variable).
\<close>

datatype scan_exit = Returned "int option" | Exhausted int

text \<open>
  \<^verbatim>\<open>
  started = 0
  for line in process.stdout:
      if line.find("Done successfully") > -1:                      return 0
      elif line.find("Completed <exit>") > -1:                     return 1
      elif line.find("New job is waiting for scheduling") > -1:    return None
      elif line.find("PENDING REASONS") > -1:                      return None
      elif line.find("Started on ") > -1:                          started = 1
  \<close>
\<close>

fun bjobs_loop :: "int \<Rightarrow> string list \<Rightarrow> scan_exit" where
  "bjobs_loop started [] = Exhausted started"
| "bjobs_loop started (line # rest) =
     (if found ''Done successfully'' line then Returned (Some 0)
      else if found ''Completed <exit>'' line then Returned (Some 1)
      else if found ''New job is waiting for scheduling'' line then Returned None
      else if found ''PENDING REASONS'' line then Returned None
      else if found ''Started on '' line then bjobs_loop 1 rest
      else bjobs_loop started rest)"

text \<open>
  \<^verbatim>\<open>
  for line in process.stdout:
      if line.find("Completed <done>") > -1:    return 0
      elif line.find("Completed <exit>") > -1:  return 1
  return None
  \<close>
\<close>

fun bacct_loop :: "string list \<Rightarrow> int option" where
  "bacct_loop [] = None"
| "bacct_loop (line # rest) =
     (if found ''Completed <done>'' line then Some 0
      else if found ''Completed <exit>'' line then Some 1
      else bacct_loop rest)"

text \<open>
  The body of \<open>getJobExitCode\<close> from the first \<open>Popen\<close> on, given the lines that
  \<open>bjobs -l\<close> and \<open>bacct -l\<close> print. \<open>bacct\<close> is only consulted when the first loop ran
  out of lines with \<open>started\<close> still 0.
\<close>

definition getJobExitCode_scan :: "string list \<Rightarrow> string list \<Rightarrow> int option" where
  "getJobExitCode_scan bjobs_out bacct_out =
     (case bjobs_loop 0 bjobs_out of
        Returned r \<Rightarrow> r
      | Exhausted started \<Rightarrow> if started = 1 then None else bacct_loop bacct_out)"

text \<open>
  The job id argument. \<open>getBatchSystemID\<close> hands over text (\<open>"123"\<close> or \<open>"123.4"\<close>); an
  integer is the only value the \<open>%d\<close> conversions of the function accept.
\<close>

datatype py_value = PyStr string | PyInt int

text \<open>\<open>'.' in lsfJobID\<close>: membership in a string; an integer is not iterable.\<close>

fun dot_in :: "py_value \<Rightarrow> py_error + bool" where
  "dot_in (PyStr s) = Inr (CHR ''.'' \<in> set s)"
| "dot_in (PyInt i) = Inl TypeError"

text \<open>\<open>"... %d" % job\<close>: the conversion \<open>%d\<close> needs a number.\<close>

fun format_d :: "py_value \<Rightarrow> py_error + string" where
  "format_d (PyInt i) = Inr (str_int i)"
| "format_d (PyStr s) = Inl TypeError"

text \<open>\<open>lsfJobID.split('.', 1)[0]\<close>, the part before the first dot.\<close>

fun split_job :: "py_value \<Rightarrow> py_value" where
  "split_job (PyStr s) = PyStr (takeWhile (\<lambda>c. c \<noteq> CHR ''.'') s)"
| "split_job (PyInt i) = PyInt i"

text \<open>
  \<^verbatim>\<open>
  job, task = (lsfJobID, None)
  if '.' in lsfJobID:
      job, task = lsfJobID.split('.', 1)
  args = ["bjobs", "-l", str(job)]
  logger.debug("Checking job exit code for job via bjobs: %d" % job)
  process = subprocess.Popen(args, ...)
  ...
  \<close>
  The message of \<open>logger.debug\<close> is formatted with \<open>%\<close> before the call, so a failing
  conversion raises out of \<open>getJobExitCode\<close>. Every later message formats the same \<open>job\<close>
  the same way.
\<close>

definition getJobExitCode :: "py_value \<Rightarrow> string list \<Rightarrow> string list \<Rightarrow> py_error + int option" where
  "getJobExitCode lsfJobID bjobs_out bacct_out =
     (case dot_in lsfJobID of
        Inl e \<Rightarrow> Inl e
      | Inr has_dot \<Rightarrow>
          (let job = (if has_dot then split_job lsfJobID else lsfJobID) in
           case format_d job of
             Inl e \<Rightarrow> Inl e
           | Inr msg \<Rightarrow> Inr (getJobExitCode_scan bjobs_out bacct_out)))"

section \<open>The AWS Batch batch system\<close>

subsection \<open>Data\<close>

text \<open>
  An AWS \<open>JobDetail\<close> as the code reads it: \<open>jobId\<close> is always indexed directly, every
  other key is tested for presence or read with \<open>get\<close>.
\<close>

record container_detail =
  exitCode :: "int option"

record job_detail =
  jobId :: string
  status :: "string option"
  startedAt :: "int option"
  stoppedAt :: "int option"
  container :: "container_detail option"
  statusReason :: "string option"

datatype BatchJobExitReason = FINISHED | FAILED | KILLED | LOST

record UpdatedBatchJobInfo =
  jobID :: int
  exitStatus :: int
  wallTime :: "rat option"
  exitReason :: BatchJobExitReason

record job_spec =
  js_jobName :: string
  js_jobDefinition :: string
  js_command :: string
  js_resourceRequirements :: "(string \<times> string) list"

text \<open>
  Every call that leaves the batch system object: to the AWS Batch client, to the local
  sub-scheduler of the base class, and to \<open>time.sleep\<close>.
\<close>

datatype call =
    DescribeJobs "string list"
  | TerminateJob string
  | SubmitJob job_spec
  | RegisterJobDefinition
  | DeregisterJobDefinition string
  | Sleep rat
  | GetUpdatedLocalJob
  | HandleLocalJob
  | GetNextJobID
  | KillLocalJobs "int list"
  | ShutdownLocal

text \<open>
  The object's fields. Python dictionaries keep insertion order and the code iterates
  over them, so they are association lists with distinct keys. \<open>calls\<close> is not a field of
  the Python object: it records the calls made so far, oldest first.
\<close>

record batch_system =
  bs_id_to_aws_id :: "(int \<times> string) list"
  aws_id_to_bs_id :: "(string \<times> int) list"
  killed_job_aws_ids :: "string set"
  job_definition :: "string option"
  calls :: "call list"

text \<open>
  Everything outside the object. Each answer may depend on all calls made before it, so
  a backend that changes its mind between two polls, a clock that advances, and a call
  that fails once and then succeeds are all instances. The constants and base-class
  helpers that the sources at hand import but do not contain are fields as well:
  \<open>EXIT_STATUS_UNAVAILABLE_VALUE\<close>, the floor \<open>epsilon\<close> of \<open>slow_down\<close>, the
  back-off intervals of \<open>retry\<close>, \<open>handleLocalJob\<close>, \<open>checkResourceRequest\<close>,
  \<open>getNextJobID\<close> and \<open>getUpdatedLocalJob\<close>.
\<close>

record world =
  describe_jobs :: "call list \<Rightarrow> string list \<Rightarrow> py_error + job_detail list"
  terminate_job :: "call list \<Rightarrow> string \<Rightarrow> py_error option"
  submit_job :: "call list \<Rightarrow> job_spec \<Rightarrow> py_error + string"
  register_job_definition :: "call list \<Rightarrow> py_error + string"
  deregister_job_definition :: "call list \<Rightarrow> string \<Rightarrow> py_error option"
  getUpdatedLocalJob :: "call list \<Rightarrow> UpdatedBatchJobInfo option"
  handleLocalJob :: "call list \<Rightarrow> job_description \<Rightarrow> int option"
  checkResourceRequest :: "int \<Rightarrow> rat \<Rightarrow> int \<Rightarrow> py_error option"
  getNextJobID :: "call list \<Rightarrow> int"
  now :: "call list \<Rightarrow> rat"
  unix_now_ms :: "call list \<Rightarrow> int"
  EXIT_STATUS_UNAVAILABLE_VALUE :: int
  epsilon :: rat
  retry_intervals :: "rat list"

definition called :: "call \<Rightarrow> batch_system \<Rightarrow> batch_system" where
  "called c s = s\<lparr>calls := calls s @ [c]\<rparr>"

definition MAX_POLL_COUNT :: nat where
  "MAX_POLL_COUNT = 100"

definition STATE_TO_EXIT_REASON :: "(string \<times> BatchJobExitReason) list" where
  "STATE_TO_EXIT_REASON = [(''SUCCEEDED'', FINISHED), (''FAILED'', FAILED)]"

subsection \<open>Python dictionaries\<close>

text \<open>\<open>d[k]\<close> raises \<open>KeyError\<close> on a missing key, and so does \<open>del d[k]\<close>.\<close>

definition dict_get :: "('k \<times> 'v) list \<Rightarrow> 'k \<Rightarrow> py_error + 'v" where
  "dict_get d k = (case map_of d k of None \<Rightarrow> Inl KeyError | Some v \<Rightarrow> Inr v)"

definition dict_set :: "('k \<times> 'v) list \<Rightarrow> 'k \<Rightarrow> 'v \<Rightarrow> ('k \<times> 'v) list" where
  "dict_set d k v = AList.update k v d"

definition dict_del :: "('k \<times> 'v) list \<Rightarrow> 'k \<Rightarrow> py_error + ('k \<times> 'v) list" where
  "dict_del d k = (case map_of d k of None \<Rightarrow> Inl KeyError | Some v \<Rightarrow> Inr (AList.delete k d))"

subsection \<open>The retry decorator\<close>

text \<open>
  Modelled from the spec: \<open>toil.lib.retry.retry\<close> is not part of the sources at hand.
  The specification has it retry a call on the configured transient error kinds with
  bounded attempts and back-off, and let any other error through at once. The decorated
  functions all name \<open>BotoServerError\<close>; the number of retries and the waits between
  them are the list of intervals.
\<close>

fun retry ::
  "rat list \<Rightarrow> (batch_system \<Rightarrow> batch_system \<times> (py_error + 'a)) \<Rightarrow>
   batch_system \<Rightarrow> batch_system \<times> (py_error + 'a)" where
  "retry [] f s = f s"
| "retry (d # ds) f s =
     (case f s of
        (s1, Inl e) \<Rightarrow>
          if e = BotoServerError then retry ds f (called (Sleep d) s1) else (s1, Inl e)
      | (s1, Inr v) \<Rightarrow> (s1, Inr v))"

subsection \<open>Runtime and exit code of a job\<close>

text \<open>
  Modelled from the spec: \<open>toil.lib.misc.slow_down\<close> is not part of the sources at hand;
  the specification has the runtime "floored at a small positive epsilon".
\<close>

definition slow_down :: "world \<Rightarrow> rat \<Rightarrow> rat" where
  "slow_down W seconds = max seconds (epsilon W)"

text \<open>
  \<^verbatim>\<open>
  if 'status' not in job_detail or job_detail['status'] not in ['STARTING', 'RUNNING', 'SUCCEEDED', 'FAILED']:
      return None
  if 'startedAt' not in job_detail:
      return None
  start_ms = job_detail['startedAt']
  if 'stoppedAt' in job_detail: end_ms = job_detail['stoppedAt']
  else:                         end_ms = unix_now_ms()
  runtime = slow_down((end_ms - start_ms) / 1000)
  return runtime
  \<close>
\<close>

definition get_runtime :: "world \<Rightarrow> batch_system \<Rightarrow> job_detail \<Rightarrow> rat option" where
  "get_runtime W s job_detail =
     (if (case status job_detail of
            None \<Rightarrow> True
          | Some st \<Rightarrow> st \<notin> set [''STARTING'', ''RUNNING'', ''SUCCEEDED'', ''FAILED''])
      then None
      else case startedAt job_detail of
             None \<Rightarrow> None
           | Some start_ms \<Rightarrow>
               (let end_ms = (case stoppedAt job_detail of
                                Some t \<Rightarrow> t
                              | None \<Rightarrow> unix_now_ms W (calls s))
                in Some (slow_down W (of_int (end_ms - start_ms) / 1000))))"

text \<open>\<open>int(job_detail.get('container', {}).get('exitCode', EXIT_STATUS_UNAVAILABLE_VALUE))\<close>\<close>

definition get_exit_code :: "world \<Rightarrow> job_detail \<Rightarrow> int" where
  "get_exit_code W job_detail =
     (case container job_detail of
        None \<Rightarrow> EXIT_STATUS_UNAVAILABLE_VALUE W
      | Some c \<Rightarrow> (case exitCode c of None \<Rightarrow> EXIT_STATUS_UNAVAILABLE_VALUE W | Some x \<Rightarrow> x))"

subsection \<open>Polling in batches\<close>

text \<open>
  \<^verbatim>\<open>
  to_check = list(aws_and_bs_id[0] for aws_and_bs_id in self.aws_id_to_bs_id.items())
  while len(to_check) > 0:
      check_batch = to_check[-MAX_POLL_COUNT:]
      to_check = to_check[:-len(check_batch)]
      response = self.client.describe_jobs(jobs=check_batch)
      yield from response.get('jobs', [])
  \<close>
  \<open>batches\<close> is the list of the successive \<open>check_batch\<close>: it depends on \<open>to_check\<close> only.
  The generator is lazy, so each consumer below asks for one batch, works through its
  job details, and only then asks for the next.
\<close>

function batches :: "string list \<Rightarrow> string list list" where
  "batches to_check =
     (if length to_check > 0
      then drop (length to_check - MAX_POLL_COUNT) to_check #
           batches (take (length to_check - length (drop (length to_check - MAX_POLL_COUNT) to_check)) to_check)
      else [])"
  by pat_completeness auto
termination
  by (relation "measure length") (auto simp: MAX_POLL_COUNT_def)

declare batches.simps [simp del]

definition is_terminal :: "job_detail \<Rightarrow> bool" where
  "is_terminal job_detail =
     (status job_detail = Some ''SUCCEEDED'' \<or> status job_detail = Some ''FAILED'')"

text \<open>How the \<open>for\<close> loop over the job details of a poll ends.\<close>

datatype loop_exit = Return UpdatedBatchJobInfo | Raise py_error | Finish

text \<open>
  The body of the \<open>for\<close> loop of \<open>getUpdatedBatchJob\<close>, over the job details of one batch.
  \<open>acknowledged\<close> grows with every terminal job seen, killed or not.
  \<^verbatim>\<open>
  if job_detail.get('status') in ['SUCCEEDED', 'FAILED']:
      aws_id = job_detail['jobId']
      bs_id = self.aws_id_to_bs_id[aws_id]
      acknowledged.append((aws_id, bs_id))
      if job_detail['jobId'] in self.killed_job_aws_ids:
          continue
      runtime = self._get_runtime(job_detail)
      exit_reason = STATE_TO_EXIT_REASON[job_detail['status']]
      exit_code = self._get_exit_code(job_detail)
      return UpdatedBatchJobInfo(jobID=bs_id, exitStatus=exit_code, wallTime=runtime, exitReason=exit_reason)
  \<close>
\<close>

fun poll_details ::
  "world \<Rightarrow> batch_system \<Rightarrow> job_detail list \<Rightarrow> (string \<times> int) list \<Rightarrow>
   (string \<times> int) list \<times> loop_exit" where
  "poll_details W s [] acknowledged = (acknowledged, Finish)"
| "poll_details W s (job_detail # rest) acknowledged =
     (if is_terminal job_detail then
        (case dict_get (aws_id_to_bs_id s) (jobId job_detail) of
           Inl e \<Rightarrow> (acknowledged, Raise e)
         | Inr bs_id \<Rightarrow>
             (let acknowledged1 = acknowledged @ [(jobId job_detail, bs_id)] in
              if jobId job_detail \<in> killed_job_aws_ids s
              then poll_details W s rest acknowledged1
              else (case dict_get STATE_TO_EXIT_REASON (the (status job_detail)) of
                      Inl e \<Rightarrow> (acknowledged1, Raise e)
                    | Inr exit_reason \<Rightarrow>
                        (acknowledged1,
                         Return \<lparr>jobID = bs_id, exitStatus = get_exit_code W job_detail,
                                 wallTime = get_runtime W s job_detail,
                                 exitReason = exit_reason\<rparr>))))
      else poll_details W s rest acknowledged)"

fun poll_batches ::
  "world \<Rightarrow> batch_system \<Rightarrow> string list list \<Rightarrow> (string \<times> int) list \<Rightarrow>
   batch_system \<times> (string \<times> int) list \<times> loop_exit" where
  "poll_batches W s [] acknowledged = (s, acknowledged, Finish)"
| "poll_batches W s (check_batch # later) acknowledged =
     (case describe_jobs W (calls s) check_batch of
        Inl e \<Rightarrow> (called (DescribeJobs check_batch) s, acknowledged, Raise e)
      | Inr jobs \<Rightarrow>
          (case poll_details W (called (DescribeJobs check_batch) s) jobs acknowledged of
             (acknowledged1, Finish) \<Rightarrow>
               poll_batches W (called (DescribeJobs check_batch) s) later acknowledged1
           | (acknowledged1, ex) \<Rightarrow> (called (DescribeJobs check_batch) s, acknowledged1, ex)))"

text \<open>
  The \<open>finally\<close> clause. A \<open>KeyError\<close> of a \<open>del\<close> leaves the loop with the records dropped
  so far.
  \<^verbatim>\<open>
  for (aws_id, bs_id) in acknowledged:
      del self.aws_id_to_bs_id[aws_id]
      del self.bs_id_to_aws_id[bs_id]
      if aws_id in self.killed_job_aws_ids:
          self.killed_job_aws_ids.remove(aws_id)
  \<close>
\<close>

fun drop_acknowledged ::
  "batch_system \<Rightarrow> (string \<times> int) list \<Rightarrow> batch_system \<times> py_error option" where
  "drop_acknowledged s [] = (s, None)"
| "drop_acknowledged s ((aws_id, bs_id) # rest) =
     (case dict_del (aws_id_to_bs_id s) aws_id of
        Inl e \<Rightarrow> (s, Some e)
      | Inr d1 \<Rightarrow>
          (case dict_del (bs_id_to_aws_id s) bs_id of
             Inl e \<Rightarrow> (s\<lparr>aws_id_to_bs_id := d1\<rparr>, Some e)
           | Inr d2 \<Rightarrow>
               drop_acknowledged
                 (s\<lparr>aws_id_to_bs_id := d1, bs_id_to_aws_id := d2,
                    killed_job_aws_ids := killed_job_aws_ids s - {aws_id}\<rparr>) rest))"

text \<open>
  One turn of the \<open>while\<close> loop of \<open>getUpdatedBatchJob\<close>, up to the end of \<open>finally\<close>:
  \<open>Inr (Some r)\<close> is \<open>return r\<close>, \<open>Inr None\<close> is reaching the code after \<open>finally\<close>,
  \<open>Inl e\<close> is an exception leaving the function. An exception raised inside \<open>finally\<close>
  replaces a pending \<open>return\<close> or exception.
\<close>

definition poll_pass ::
  "world \<Rightarrow> batch_system \<Rightarrow> batch_system \<times> (py_error + UpdatedBatchJobInfo option)" where
  "poll_pass W s =
     (case getUpdatedLocalJob W (calls s) of
        Some result \<Rightarrow> (called GetUpdatedLocalJob s, Inr (Some result))
      | None \<Rightarrow>
          (case poll_batches W (called GetUpdatedLocalJob s)
                  (batches (map fst (aws_id_to_bs_id s))) [] of
             (s1, acknowledged, ex) \<Rightarrow>
               (case drop_acknowledged s1 acknowledged of
                  (s2, Some e) \<Rightarrow> (s2, Inl e)
                | (s2, None) \<Rightarrow>
                    (case ex of
                       Return result \<Rightarrow> (s2, Inr (Some result))
                     | Raise e \<Rightarrow> (s2, Inl e)
                     | Finish \<Rightarrow> (s2, Inr None)))))"

text \<open>
  \<^verbatim>\<open>
  entry = datetime.datetime.now()
  while ((datetime.datetime.now() - entry).total_seconds() < maxWait or not maxWait):
      ... one pass, returning its result if it has one ...
      if maxWait:
          time.sleep(min(maxWait/2, 1.0))
      else:
          break
  return None
  \<close>
  The loop is bounded by the clock only, so the model counts turns: \<open>None\<close> means that
  the given number of turns did not suffice.
\<close>

fun getUpdatedBatchJob_loop ::
  "nat \<Rightarrow> world \<Rightarrow> int \<Rightarrow> rat \<Rightarrow> batch_system \<Rightarrow>
   (batch_system \<times> (py_error + UpdatedBatchJobInfo option)) option" where
  "getUpdatedBatchJob_loop 0 W maxWait entry s = None"
| "getUpdatedBatchJob_loop (Suc n) W maxWait entry s =
     (if now W (calls s) - entry < of_int maxWait \<or> maxWait = 0 then
        (case poll_pass W s of
           (s1, Inl e) \<Rightarrow> Some (s1, Inl e)
         | (s1, Inr (Some result)) \<Rightarrow> Some (s1, Inr (Some result))
         | (s1, Inr None) \<Rightarrow>
             if maxWait \<noteq> 0
             then getUpdatedBatchJob_loop n W maxWait entry
                    (called (Sleep (min (of_int maxWait / 2) 1)) s1)
             else Some (s1, Inr None))
      else Some (s, Inr None))"

definition getUpdatedBatchJob ::
  "nat \<Rightarrow> world \<Rightarrow> int \<Rightarrow> batch_system \<Rightarrow>
   (batch_system \<times> (py_error + UpdatedBatchJobInfo option)) option" where
  "getUpdatedBatchJob fuel W maxWait s =
     getUpdatedBatchJob_loop fuel W maxWait (now W (calls s)) s"

subsection \<open>Running jobs\<close>

text \<open>
  The body of the \<open>for\<close> loop of \<open>getRunningBatchJobIDs\<close>, over the job details of one
  batch. \<open>if runtime:\<close> is false for \<open>None\<close> and for a zero.
  \<^verbatim>\<open>
  if job_detail.get('status') == 'RUNNING':
      runtime = self._get_runtime(job_detail)
      aws_id = job_detail['jobId']
      bs_id = self.aws_id_to_bs_id[aws_id]
      if runtime:
          bs_id_to_runtime[bs_id] = runtime
      else:
          logger.warning("Job %s is %s but has no runtime: %s", ...)
  \<close>
\<close>

fun running_details ::
  "world \<Rightarrow> batch_system \<Rightarrow> job_detail list \<Rightarrow> (int \<times> rat) list \<Rightarrow>
   py_error + (int \<times> rat) list" where
  "running_details W s [] bs_id_to_runtime = Inr bs_id_to_runtime"
| "running_details W s (job_detail # rest) bs_id_to_runtime =
     (if status job_detail = Some ''RUNNING'' then
        (case dict_get (aws_id_to_bs_id s) (jobId job_detail) of
           Inl e \<Rightarrow> Inl e
         | Inr bs_id \<Rightarrow>
             (case get_runtime W s job_detail of
                None \<Rightarrow> running_details W s rest bs_id_to_runtime
              | Some runtime \<Rightarrow>
                  if runtime \<noteq> 0
                  then running_details W s rest (dict_set bs_id_to_runtime bs_id runtime)
                  else running_details W s rest bs_id_to_runtime))
      else running_details W s rest bs_id_to_runtime)"

fun running_batches ::
  "world \<Rightarrow> batch_system \<Rightarrow> string list list \<Rightarrow> (int \<times> rat) list \<Rightarrow>
   batch_system \<times> (py_error + (int \<times> rat) list)" where
  "running_batches W s [] bs_id_to_runtime = (s, Inr bs_id_to_runtime)"
| "running_batches W s (check_batch # later) bs_id_to_runtime =
     (case describe_jobs W (calls s) check_batch of
        Inl e \<Rightarrow> (called (DescribeJobs check_batch) s, Inl e)
      | Inr jobs \<Rightarrow>
          (case running_details W (called (DescribeJobs check_batch) s) jobs bs_id_to_runtime of
             Inl e \<Rightarrow> (called (DescribeJobs check_batch) s, Inl e)
           | Inr bs_id_to_runtime1 \<Rightarrow>
               running_batches W (called (DescribeJobs check_batch) s) later bs_id_to_runtime1))"

definition getRunningBatchJobIDs ::
  "world \<Rightarrow> batch_system \<Rightarrow> batch_system \<times> (py_error + (int \<times> rat) list)" where
  "getRunningBatchJobIDs W s = running_batches W s (batches (map fst (aws_id_to_bs_id s))) []"

subsection \<open>Terminating jobs\<close>

text \<open>
  \<^verbatim>\<open>
  @retry(errors=[BotoServerError])
  def _try_terminate(self, aws_id):
      self.killed_job_aws_ids.add(aws_id)
      self.client.terminate_job(jobId=aws_id, reason='Killed by Toil')
  \<close>
\<close>

definition try_terminate_body ::
  "world \<Rightarrow> string \<Rightarrow> batch_system \<Rightarrow> batch_system \<times> (py_error + unit)" where
  "try_terminate_body W aws_id s =
     (let s1 = s\<lparr>killed_job_aws_ids := insert aws_id (killed_job_aws_ids s)\<rparr> in
      case terminate_job W (calls s1) aws_id of
        Some e \<Rightarrow> (called (TerminateJob aws_id) s1, Inl e)
      | None \<Rightarrow> (called (TerminateJob aws_id) s1, Inr ()))"

definition try_terminate ::
  "world \<Rightarrow> string \<Rightarrow> batch_system \<Rightarrow> batch_system \<times> (py_error + unit)" where
  "try_terminate W aws_id = retry (retry_intervals W) (try_terminate_body W aws_id)"

text \<open>
  \<^verbatim>\<open>
  @retry(errors=[BotoServerError])
  def _wait_until_stopped(self, aws_id):
      while True:
          response = self.client.describe_jobs(jobs=[aws_id])
          jobs = response.get('jobs', [])
          if len(jobs) == 0:
              return
          job = jobs[0]
          if job.get('status') and job['status'] in ['SUCCEEDED', 'FAILED']:
              return
          time.sleep(2)
  \<close>
  The loop has no exit but its two \<open>return\<close>s, so the model counts its turns and gives
  \<open>None\<close> when the count runs out. A retry starts the function again, which is the same
  loop with one back-off interval fewer, after the back-off sleep.
\<close>

fun wait_until_stopped ::
  "nat \<Rightarrow> rat list \<Rightarrow> world \<Rightarrow> string \<Rightarrow> batch_system \<Rightarrow>
   (batch_system \<times> (py_error + unit)) option" where
  "wait_until_stopped 0 intervals W aws_id s = None"
| "wait_until_stopped (Suc n) intervals W aws_id s =
     (case describe_jobs W (calls s) [aws_id] of
        Inl e \<Rightarrow>
          (case intervals of
             [] \<Rightarrow> Some (called (DescribeJobs [aws_id]) s, Inl e)
           | d # ds \<Rightarrow>
               if e = BotoServerError
               then wait_until_stopped n ds W aws_id
                      (called (Sleep d) (called (DescribeJobs [aws_id]) s))
               else Some (called (DescribeJobs [aws_id]) s, Inl e))
      | Inr jobs \<Rightarrow>
          (case jobs of
             [] \<Rightarrow> Some (called (DescribeJobs [aws_id]) s, Inr ())
           | job # _ \<Rightarrow>
               if is_terminal job
               then Some (called (DescribeJobs [aws_id]) s, Inr ())
               else wait_until_stopped n intervals W aws_id
                      (called (Sleep 2) (called (DescribeJobs [aws_id]) s))))"

text \<open>
  The two loops of \<open>killBatchJobs\<close>.
  \<^verbatim>\<open>
  self.killLocalJobs(job_ids)
  for bs_id in job_ids:
      if bs_id in self.bs_id_to_aws_id:
          self._try_terminate(self.bs_id_to_aws_id[bs_id])
  for bs_id in job_ids:
      if bs_id in self.bs_id_to_aws_id:
          self._wait_until_stopped(self.bs_id_to_aws_id[bs_id])
  \<close>
\<close>

fun kill_terminate ::
  "world \<Rightarrow> int list \<Rightarrow> batch_system \<Rightarrow> batch_system \<times> (py_error + unit)" where
  "kill_terminate W [] s = (s, Inr ())"
| "kill_terminate W (bs_id # rest) s =
     (case map_of (bs_id_to_aws_id s) bs_id of
        None \<Rightarrow> kill_terminate W rest s
      | Some aws_id \<Rightarrow>
          (case try_terminate W aws_id s of
             (s1, Inl e) \<Rightarrow> (s1, Inl e)
           | (s1, Inr u) \<Rightarrow> kill_terminate W rest s1))"

fun kill_wait ::
  "nat \<Rightarrow> world \<Rightarrow> int list \<Rightarrow> batch_system \<Rightarrow>
   (batch_system \<times> (py_error + unit)) option" where
  "kill_wait fuel W [] s = Some (s, Inr ())"
| "kill_wait fuel W (bs_id # rest) s =
     (case map_of (bs_id_to_aws_id s) bs_id of
        None \<Rightarrow> kill_wait fuel W rest s
      | Some aws_id \<Rightarrow>
          (case wait_until_stopped fuel (retry_intervals W) W aws_id s of
             None \<Rightarrow> None
           | Some (s1, Inl e) \<Rightarrow> Some (s1, Inl e)
           | Some (s1, Inr u) \<Rightarrow> kill_wait fuel W rest s1))"

definition killBatchJobs ::
  "nat \<Rightarrow> world \<Rightarrow> int list \<Rightarrow> batch_system \<Rightarrow>
   (batch_system \<times> (py_error + unit)) option" where
  "killBatchJobs fuel W job_ids s =
     (case kill_terminate W job_ids (called (KillLocalJobs job_ids) s) of
        (s1, Inl e) \<Rightarrow> Some (s1, Inl e)
      | (s1, Inr u) \<Rightarrow> kill_wait fuel W job_ids s1)"

subsection \<open>The job definition\<close>

text \<open>
  \<^verbatim>\<open>
  @retry(errors=[BotoServerError])
  def _get_or_create_job_definition(self):
      if self.job_definition is None:
          ...
          response = self.client.register_job_definition(**job_def_spec)
          self.job_definition = response['jobDefinitionArn']
      return self.job_definition
  \<close>
\<close>

definition get_or_create_job_definition_body ::
  "world \<Rightarrow> batch_system \<Rightarrow> batch_system \<times> (py_error + string)" where
  "get_or_create_job_definition_body W s =
     (case job_definition s of
        Some arn \<Rightarrow> (s, Inr arn)
      | None \<Rightarrow>
          (case register_job_definition W (calls s) of
             Inl e \<Rightarrow> (called RegisterJobDefinition s, Inl e)
           | Inr arn \<Rightarrow> ((called RegisterJobDefinition s)\<lparr>job_definition := Some arn\<rparr>, Inr arn)))"

definition get_or_create_job_definition ::
  "world \<Rightarrow> batch_system \<Rightarrow> batch_system \<times> (py_error + string)" where
  "get_or_create_job_definition W =
     retry (retry_intervals W) (get_or_create_job_definition_body W)"

text \<open>
  \<^verbatim>\<open>
  @retry(errors=[BotoServerError])
  def _destroy_job_definition(self):
      if self.job_definition is not None:
          self.client.deregister_job_definition(jobDefinition=self.job_definition)
          self.job_definition = None
  \<close>
\<close>

definition destroy_job_definition_body ::
  "world \<Rightarrow> batch_system \<Rightarrow> batch_system \<times> (py_error + unit)" where
  "destroy_job_definition_body W s =
     (case job_definition s of
        None \<Rightarrow> (s, Inr ())
      | Some arn \<Rightarrow>
          (case deregister_job_definition W (calls s) arn of
             Some e \<Rightarrow> (called (DeregisterJobDefinition arn) s, Inl e)
           | None \<Rightarrow> ((called (DeregisterJobDefinition arn) s)\<lparr>job_definition := None\<rparr>, Inr ())))"

definition destroy_job_definition ::
  "world \<Rightarrow> batch_system \<Rightarrow> batch_system \<times> (py_error + unit)" where
  "destroy_job_definition W = retry (retry_intervals W) (destroy_job_definition_body W)"

subsection \<open>Shutdown\<close>

text \<open>
  \<^verbatim>\<open>
  self.shutdownLocal()
  for aws_id in self.aws_id_to_bs_id.keys():
      self._try_terminate(aws_id)
  self._destroy_job_definition()
  \<close>
\<close>

fun terminate_all ::
  "world \<Rightarrow> string list \<Rightarrow> batch_system \<Rightarrow> batch_system \<times> (py_error + unit)" where
  "terminate_all W [] s = (s, Inr ())"
| "terminate_all W (aws_id # rest) s =
     (case try_terminate W aws_id s of
        (s1, Inl e) \<Rightarrow> (s1, Inl e)
      | (s1, Inr u) \<Rightarrow> terminate_all W rest s1)"

definition shutdown :: "world \<Rightarrow> batch_system \<Rightarrow> batch_system \<times> (py_error + unit)" where
  "shutdown W s =
     (case terminate_all W (map fst (aws_id_to_bs_id s)) (called ShutdownLocal s) of
        (s1, Inl e) \<Rightarrow> (s1, Inl e)
      | (s1, Inr u) \<Rightarrow> destroy_job_definition W s1)"

subsection \<open>Submission\<close>

text \<open>
  \<open>issueBatchJob\<close>, without the environment variables and the pickling of the command,
  on which no property below depends.
  \<^verbatim>\<open>
  local_id = self.handleLocalJob(job_desc)
  if local_id is not None:
      return local_id
  else:
      self.checkResourceRequest(job_desc.memory, job_desc.cores, job_desc.disk)
      bs_id = self.getNextJobID()
      job_name = self._ensafen_name(str(job_desc))
      ...
      job_spec = {'jobName': job_name, 'jobQueue': self.queue,
                  'jobDefinition': self._get_or_create_job_definition(),
                  'containerOverrides': {..., 'resourceRequirements': [...]}}
      response = self.client.submit_job(**job_spec)
      aws_id = response['jobId']
      self.bs_id_to_aws_id[bs_id] = aws_id
      self.aws_id_to_bs_id[aws_id] = bs_id
      return bs_id
  \<close>
\<close>

definition issueBatchJob ::
  "world \<Rightarrow> job_description \<Rightarrow> batch_system \<Rightarrow> batch_system \<times> (py_error + int)" where
  "issueBatchJob W job_desc s =
     (case handleLocalJob W (calls s) job_desc of
        Some local_id \<Rightarrow> (called HandleLocalJob s, Inr local_id)
      | None \<Rightarrow>
          (case checkResourceRequest W (memory job_desc) (cores job_desc) (disk job_desc) of
             Some e \<Rightarrow> (called HandleLocalJob s, Inl e)
           | None \<Rightarrow>
               (let bs_id = getNextJobID W (calls (called HandleLocalJob s));
                    s1 = called GetNextJobID (called HandleLocalJob s);
                    job_name = ensafen_name (job_str job_desc)
                in case get_or_create_job_definition W s1 of
                     (s2, Inl e) \<Rightarrow> (s2, Inl e)
                   | (s2, Inr arn) \<Rightarrow>
                       (let spec = \<lparr>js_jobName = job_name, js_jobDefinition = arn,
                                     js_command = command job_desc,
                                     js_resourceRequirements = resourceRequirements job_desc\<rparr>
                        in case submit_job W (calls s2) spec of
                             Inl e \<Rightarrow> (called (SubmitJob spec) s2, Inl e)
                           | Inr aws_id \<Rightarrow>
                               ((called (SubmitJob spec) s2)
                                  \<lparr>bs_id_to_aws_id := dict_set (bs_id_to_aws_id s2) bs_id aws_id,
                                   aws_id_to_bs_id := dict_set (aws_id_to_bs_id s2) aws_id bs_id\<rparr>,
                                Inr bs_id)))))"

text \<open>The object as \<open>__init__\<close> leaves it.\<close>

definition init :: batch_system where
  "init = \<lparr>bs_id_to_aws_id = [], aws_id_to_bs_id = [], killed_job_aws_ids = {},
           job_definition = None, calls = []\<rparr>"

subsection \<open>The completion event as the specification words it\<close>

text \<open>
  Wall time: end timestamp (the current time when none is reported) minus start
  timestamp, in seconds, floored at epsilon; absent without a start timestamp. Exit code:
  the reported container exit code, or the sentinel. Exit reason: \<open>FINISHED\<close> for a
  succeeded job, \<open>FAILED\<close> for a failed one.
\<close>

definition spec_wall_time :: "world \<Rightarrow> call list \<Rightarrow> job_detail \<Rightarrow> rat option" where
  "spec_wall_time W cs jd =
     (case startedAt jd of
        None \<Rightarrow> None
      | Some start_ms \<Rightarrow>
          Some (max (of_int ((case stoppedAt jd of Some stop_ms \<Rightarrow> stop_ms | None \<Rightarrow> unix_now_ms W cs)
                              - start_ms) / 1000)
                    (epsilon W)))"

definition spec_exit_code :: "world \<Rightarrow> job_detail \<Rightarrow> int" where
  "spec_exit_code W jd =
     (case container jd of
        None \<Rightarrow> EXIT_STATUS_UNAVAILABLE_VALUE W
      | Some c \<Rightarrow> (case exitCode c of None \<Rightarrow> EXIT_STATUS_UNAVAILABLE_VALUE W | Some x \<Rightarrow> x))"

definition spec_exit_reason :: "job_detail \<Rightarrow> BatchJobExitReason" where
  "spec_exit_reason jd = (if status jd = Some ''SUCCEEDED'' then FINISHED else FAILED)"

definition spec_completion_event ::
  "world \<Rightarrow> call list \<Rightarrow> int \<Rightarrow> job_detail \<Rightarrow> UpdatedBatchJobInfo" where
  "spec_completion_event W cs bs_id jd =
     \<lparr>jobID = bs_id, exitStatus = spec_exit_code W jd, wallTime = spec_wall_time W cs jd,
      exitReason = spec_exit_reason jd\<rparr>"

subsection \<open>A concrete world\<close>

text \<open>
  A world for running the model on examples: the clock shows the seconds slept so far,
  nothing is local, every job fits, and the backend's answers to \<open>describe_jobs\<close> and
  \<open>terminate_job\<close> are the two arguments.
\<close>

definition slept :: "call list \<Rightarrow> rat" where
  "slept cs = sum_list (map (\<lambda>c. case c of Sleep d \<Rightarrow> max d 0 | _ \<Rightarrow> 0) cs)"

definition example_world ::
  "(call list \<Rightarrow> string list \<Rightarrow> py_error + job_detail list) \<Rightarrow>
   (call list \<Rightarrow> string \<Rightarrow> py_error option) \<Rightarrow> world" where
  "example_world describe terminate =
     \<lparr>describe_jobs = describe,
      terminate_job = terminate,
      submit_job = (\<lambda>cs spec. Inr (''job-'' @ str_nat (length cs))),
      register_job_definition = (\<lambda>cs. Inr ''arn:toil''),
      deregister_job_definition = (\<lambda>cs arn. None),
      getUpdatedLocalJob = (\<lambda>cs. None),
      handleLocalJob = (\<lambda>cs job_desc. None),
      checkResourceRequest = (\<lambda>m c d. None),
      getNextJobID = (\<lambda>cs. int (length cs)),
      now = slept,
      unix_now_ms = (\<lambda>cs. 5000),
      EXIT_STATUS_UNAVAILABLE_VALUE = 255,
      epsilon = 1 / 1000000,
      retry_intervals = [1, 1, 2]\<rparr>"

definition succeeded_detail :: "string \<Rightarrow> job_detail" where
  "succeeded_detail aws_id =
     \<lparr>jobId = aws_id, status = Some ''SUCCEEDED'', startedAt = Some 1000, stoppedAt = Some 3000,
      container = None, statusReason = None\<rparr>"

definition one_job :: batch_system where
  "one_job = init\<lparr>bs_id_to_aws_id := [(1, ''a1'')], aws_id_to_bs_id := [(''a1'', 1)]\<rparr>"

subsection \<open>Running jobs\<close>

text \<open>
  The job details that \<open>_describe_jobs_in_batches\<close> yields when it is run to its end
  from the call history \<open>cs\<close>, as \<open>getRunningBatchJobIDs\<close> does when nothing raises.
\<close>

fun yielded :: "world \<Rightarrow> call list \<Rightarrow> string list list \<Rightarrow> job_detail list" where
  "yielded W cs [] = []"
| "yielded W cs (check_batch # later) =
     (case describe_jobs W cs check_batch of
        Inl e \<Rightarrow> []
      | Inr jobs \<Rightarrow> jobs @ yielded W (cs @ [DescribeJobs check_batch]) later)"

definition measurable :: "batch_system \<Rightarrow> int \<Rightarrow> job_detail \<Rightarrow> bool" where
  "measurable s bs_id jd =
     (status jd = Some ''RUNNING'' \<and> startedAt jd \<noteq> None \<and>
      map_of (aws_id_to_bs_id s) (jobId jd) = Some bs_id)"

definition running_detail :: "string \<Rightarrow> int option \<Rightarrow> job_detail" where
  "running_detail aws_id started =
     \<lparr>jobId = aws_id, status = Some ''RUNNING'', startedAt = started, stoppedAt = None,
      container = None, statusReason = None\<rparr>"

definition two_jobs :: batch_system where
  "two_jobs = init\<lparr>bs_id_to_aws_id := [(1, ''a1''), (2, ''a2'')],
                   aws_id_to_bs_id := [(''a1'', 1), (''a2'', 2)]\<rparr>"

text \<open>A backend on which job \<open>a1\<close> runs since second 1 and every other job runs without a
  start timestamp.\<close>

definition running_world :: world where
  "running_world =
     example_world
       (\<lambda>cs ids. Inr (map (\<lambda>a. running_detail a (if a = ''a1'' then Some 1000 else None)) ids))
       (\<lambda>cs a. None)"

subsection \<open>Cancelling\<close>

text \<open>The calls that \<open>_try_terminate\<close> makes for a handle: cancel calls for it, and the
  sleeps of the retries between them.\<close>

definition cancel_or_sleep :: "call \<Rightarrow> bool" where
  "cancel_or_sleep c = (case c of TerminateJob a \<Rightarrow> True | Sleep d \<Rightarrow> True | _ \<Rightarrow> False)"

text \<open>Two states that differ in nothing but the killed flags and the calls made.\<close>

definition same_registry :: "batch_system \<Rightarrow> batch_system \<Rightarrow> bool" where
  "same_registry s s1 =
     (bs_id_to_aws_id s1 = bs_id_to_aws_id s \<and> aws_id_to_bs_id s1 = aws_id_to_bs_id s \<and>
      job_definition s1 = job_definition s)"

definition deregister_or_sleep :: "call \<Rightarrow> bool" where
  "deregister_or_sleep c =
     (case c of DeregisterJobDefinition a \<Rightarrow> True | Sleep d \<Rightarrow> True | _ \<Rightarrow> False)"




subsection \<open>The polling loop\<close>

text \<open>
  A clock that never runs backwards and on which a sleep takes at least as long as asked.
\<close>

definition clock_advances :: "world \<Rightarrow> bool" where
  "clock_advances W =
     ((\<forall>cs cs'. now W cs \<le> now W (cs @ cs')) \<and>
      (\<forall>cs d. now W cs + d \<le> now W (cs @ [Sleep d])))"

text \<open>A clock on which every polling pass takes three tenths of a second.\<close>

definition slow_pass_world :: world where
  "slow_pass_world =
     (example_world (\<lambda>cs ids. Inr []) (\<lambda>cs a. None))
       \<lparr>now := (\<lambda>cs. slept cs + 3 / 10 * of_nat (length (filter (\<lambda>c. c = GetUpdatedLocalJob) cs)))\<rparr>"

definition finished_world :: world where
  "finished_world = example_world (\<lambda>cs ids. Inr (map succeeded_detail ids)) (\<lambda>cs a. None)"

subsection \<open>Killing jobs\<close>

definition describe_or_sleep :: "call \<Rightarrow> bool" where
  "describe_or_sleep c = (case c of DescribeJobs ids \<Rightarrow> True | Sleep d \<Rightarrow> True | _ \<Rightarrow> False)"

text \<open>
  The backend's answer to a status poll for one handle, asked after the calls \<open>cs\<close>, is
  one of the two that end \<open>_wait_until_stopped\<close>: no job at all, or a first job in a
  terminal state.
\<close>

definition stopped_seen :: "world \<Rightarrow> call list \<Rightarrow> string \<Rightarrow> bool" where
  "stopped_seen W cs aws_id =
     (case describe_jobs W cs [aws_id] of
        Inl e \<Rightarrow> False
      | Inr [] \<Rightarrow> True
      | Inr (job # rest) \<Rightarrow> is_terminal job)"


text \<open>
  The two dictionaries of the registry are inverse to each other (as association lists
  with distinct keys).
\<close>

definition registry_inv :: "batch_system \<Rightarrow> bool" where
  "registry_inv s =
     (distinct (map fst (bs_id_to_aws_id s)) \<and> distinct (map fst (aws_id_to_bs_id s)) \<and>
      set (aws_id_to_bs_id s) = (\<lambda>(b, a). (a, b)) ` set (bs_id_to_aws_id s))"

definition failed_detail :: "string \<Rightarrow> job_detail" where
  "failed_detail aws_id =
     \<lparr>jobId = aws_id, status = Some ''FAILED'', startedAt = Some 1000, stoppedAt = Some 2000,
      container = Some \<lparr>exitCode = Some 137\<rparr>, statusReason = Some ''Killed by Toil''\<rparr>"

text \<open>A backend on which every job runs until its cancel call, and has failed from then on.\<close>

definition killable_world :: world where
  "killable_world =
     example_world
       (\<lambda>cs ids. Inr (map (\<lambda>a. if TerminateJob a \<in> set cs then failed_detail a
                                 else running_detail a (Some 1000)) ids))
       (\<lambda>cs a. None)"


text \<open>
  The backend has reported the handle in a terminal state, in an answer to a status poll
  made after the calls \<open>cs\<close>.
\<close>

definition reported_terminal :: "world \<Rightarrow> call list \<Rightarrow> string \<Rightarrow> bool" where
  "reported_terminal W cs aws_id =
     (\<exists>cs' ids jobs jd. describe_jobs W (cs @ cs') ids = Inr jobs \<and> jd \<in> set jobs \<and>
        is_terminal jd \<and> jobId jd = aws_id)"

text \<open>The handles of the cancel calls in a list of calls, and the calls that an operation
  added.\<close>

fun cancelled :: "call list \<Rightarrow> string list" where
  "cancelled [] = []"
| "cancelled (TerminateJob a # cs) = a # cancelled cs"
| "cancelled (c # cs) = cancelled cs"

definition new_calls :: "batch_system \<Rightarrow> batch_system \<Rightarrow> call list" where
  "new_calls s s1 = drop (length (calls s)) (calls s1)"

subsection \<open>Sequences of operations\<close>

text \<open>
  The operations of the batch system that touch the registry. A call of
  \<open>getUpdatedBatchJob\<close> is a sequence of polling passes with sleeps in between, so the
  pass and the sleep are the operations here.
\<close>

datatype operation =
    IssueBatchJob job_description
  | PollPass
  | Wait rat
  | KillBatchJobs "int list"
  | Shutdown

text \<open>
  What an observer of a run notes: a job sent to AWS Batch under an internal id and a
  handle, a pair that a pass took out of the registry, a completion event that a pass
  returned for a remote job, an update that a pass handed on from the local
  sub-scheduler, and a cancel call for a handle.
\<close>

datatype obs =
    Issued int string
  | Forgotten int string
  | Emitted UpdatedBatchJobInfo
  | LocalUpdate UpdatedBatchJobInfo
  | Cancelled string

definition dropped :: "batch_system \<Rightarrow> batch_system \<Rightarrow> obs list" where
  "dropped s s1 =
     map (\<lambda>(b, a). Forgotten b a)
       (filter (\<lambda>p. p \<notin> set (bs_id_to_aws_id s1)) (bs_id_to_aws_id s))"

fun exec :: "nat \<Rightarrow> world \<Rightarrow> operation \<Rightarrow> batch_system \<Rightarrow> (batch_system \<times> obs list) option" where
  "exec fuel W (IssueBatchJob job_desc) s =
     (case issueBatchJob W job_desc s of
        (s1, Inl e) \<Rightarrow> Some (s1, [])
      | (s1, Inr bs_id) \<Rightarrow>
          (case handleLocalJob W (calls s) job_desc of
             Some local_id \<Rightarrow> Some (s1, [])
           | None \<Rightarrow>
               (case map_of (bs_id_to_aws_id s1) bs_id of
                  None \<Rightarrow> Some (s1, [])
                | Some aws_id \<Rightarrow> Some (s1, [Issued bs_id aws_id]))))"
| "exec fuel W PollPass s =
     (case poll_pass W s of
        (s1, Inl e) \<Rightarrow> Some (s1, dropped s s1)
      | (s1, Inr None) \<Rightarrow> Some (s1, dropped s s1)
      | (s1, Inr (Some ev)) \<Rightarrow>
          (case getUpdatedLocalJob W (calls s) of
             Some l \<Rightarrow> Some (s1, dropped s s1 @ [LocalUpdate ev])
           | None \<Rightarrow> Some (s1, dropped s s1 @ [Emitted ev])))"
| "exec fuel W (Wait d) s = Some (called (Sleep d) s, [])"
| "exec fuel W (KillBatchJobs job_ids) s =
     (case killBatchJobs fuel W job_ids s of
        None \<Rightarrow> None
      | Some (s1, r) \<Rightarrow> Some (s1, map Cancelled (cancelled (new_calls s s1))))"
| "exec fuel W Shutdown s =
     (case shutdown W s of
        (s1, r) \<Rightarrow> Some (s1, map Cancelled (cancelled (new_calls s s1))))"

fun run :: "nat \<Rightarrow> world \<Rightarrow> operation list \<Rightarrow> batch_system \<Rightarrow> (batch_system \<times> obs list) option" where
  "run fuel W [] s = Some (s, [])"
| "run fuel W (op # ops) s =
     (case exec fuel W op s of
        None \<Rightarrow> None
      | Some (s1, tr1) \<Rightarrow>
          (case run fuel W ops s1 of
             None \<Rightarrow> None
           | Some (s2, tr2) \<Rightarrow> Some (s2, tr1 @ tr2)))"

fun issued :: "obs list \<Rightarrow> (int \<times> string) list" where
  "issued [] = []"
| "issued (Issued b a # tr) = (b, a) # issued tr"
| "issued (x # tr) = issued tr"

fun emitted :: "obs list \<Rightarrow> int list" where
  "emitted [] = []"
| "emitted (Emitted ev # tr) = jobID ev # emitted tr"
| "emitted (x # tr) = emitted tr"

fun forgotten :: "obs list \<Rightarrow> (int \<times> string) list" where
  "forgotten [] = []"
| "forgotten (Forgotten b a # tr) = (b, a) # forgotten tr"
| "forgotten (x # tr) = forgotten tr"

fun cancels :: "obs list \<Rightarrow> string list" where
  "cancels [] = []"
| "cancels (Cancelled a # tr) = a # cancels tr"
| "cancels (x # tr) = cancels tr"

text \<open>
  In a trace, no completion event for a job comes after a cancel call for its handle;
  \<open>I\<close> tells which handle belongs to which job.
\<close>

definition none_after_cancel :: "(int \<times> string) set \<Rightarrow> obs list \<Rightarrow> bool" where
  "none_after_cancel I tr =
     (\<forall>tr1 tr2 b a ev. tr = tr1 @ Cancelled a # tr2 \<and> (b, a) \<in> I \<and> Emitted ev \<in> set tr2 \<longrightarrow>
        jobID ev \<noteq> b)"

text \<open>What holds between the state and the trace after every operation of a run.\<close>

definition trace_inv :: "(int \<times> string) set \<Rightarrow> batch_system \<Rightarrow> obs list \<Rightarrow> bool" where
  "trace_inv I s tr =
     (registry_inv s \<and>
      set (bs_id_to_aws_id s) \<subseteq> set (issued tr) \<and>
      set (emitted tr) \<subseteq> fst ` set (issued tr) \<and>
      set (emitted tr) \<inter> fst ` set (bs_id_to_aws_id s) = {} \<and>
      distinct (emitted tr) \<and>
      (\<forall>p\<in>set (bs_id_to_aws_id s). snd p \<in> set (cancels tr) \<longrightarrow> snd p \<in> killed_job_aws_ids s) \<and>
      set (cancels tr) \<subseteq> snd ` set (issued tr) \<and>
      none_after_cancel I tr \<and>
      set (bs_id_to_aws_id s) = set (issued tr) - set (forgotten tr) \<and>
      distinct (forgotten tr) \<and> set (forgotten tr) \<subseteq> set (issued tr))"

text \<open>A backend on which every job has succeeded by the time it is polled, unless it was
  cancelled before: then it has failed.\<close>

definition busy_world :: world where
  "busy_world =
     example_world
       (\<lambda>cs ids. Inr (map (\<lambda>a. if TerminateJob a \<in> set cs then failed_detail a
                                 else succeeded_detail a) ids))
       (\<lambda>cs a. None)"

definition small_job :: job_description where
  "small_job = \<lparr>job_str = ''my job #1!!'', command = ''true'', memory = 1, cores = 1 / 100, disk = 0\<rparr>"

text \<open>Two jobs are issued, the first is killed, then three passes poll.\<close>

definition example_run :: "operation list" where
  "example_run =
     [IssueBatchJob small_job, IssueBatchJob small_job, KillBatchJobs [1], PollPass, PollPass, PollPass]"

definition example_trace :: "obs list" where
  "example_trace =
     [Issued 1 ''job-3'', Issued 5 ''job-6'', Cancelled ''job-3'',
      Forgotten 1 ''job-3'', Forgotten 5 ''job-6'',
      Emitted \<lparr>jobID = 5, exitStatus = 255, wallTime = Some 2, exitReason = FINISHED\<rparr>]"

text \<open>Two jobs are issued on a backend where jobs run until cancelled, the first is killed,
  then one pass polls and sleeps.\<close>

definition kill_run :: "operation list" where
  "kill_run = [IssueBatchJob small_job, IssueBatchJob small_job, KillBatchJobs [1], PollPass, Wait 1]"

definition kill_trace :: "obs list" where
  "kill_trace = [Issued 1 ''job-3'', Issued 5 ''job-6'', Cancelled ''job-3'', Forgotten 1 ''job-3'']"

section \<open>Theorems\<close>

lemma ensafen_name_refines: "ensafen_name s = spec_sanitize s"
proof -
  let ?k = "filter (\<lambda>c. isalnum c \<or> c = CHR ''-'' \<or> c = CHR ''_'') (replace_space s)"
  have a: "spec_allowed = (\<lambda>c. isalnum c \<or> c = CHR ''-'' \<or> c = CHR ''_'')"
    by (simp add: fun_eq_iff spec_allowed_def)
  have p: "(if (case ?k of [] \<Rightarrow> True | c # _ \<Rightarrow> \<not> isalnum c) then CHR ''j'' # ?k else ?k)
        = spec_prepend_filler ?k"
    by (cases ?k) (simp_all add: spec_filler_def)
  have "ensafen_name s =
        take 128 (if (case ?k of [] \<Rightarrow> True | c # _ \<Rightarrow> \<not> isalnum c) then CHR ''j'' # ?k else ?k)"
    unfolding ensafen_name_def Let_def ..
  also have "\<dots> = take 128 (spec_prepend_filler ?k)"
    by (simp only: p)
  also have "\<dots> = spec_sanitize s"
    by (simp only: spec_sanitize_def spec_truncate_def spec_max_length_def a
        spec_drop_disallowed_def spec_replace_spaces_def replace_space_def)
  finally show ?thesis .
qed

lemma isalnum_j: "isalnum (CHR ''j'')"
  by (simp add: isalnum_def)

lemma spec_prepend_filler_props:
  "spec_prepend_filler k \<noteq> [] \<and> isalnum (hd (spec_prepend_filler k))"
  by (cases k) (simp_all add: spec_filler_def isalnum_j)

lemma hd_take_pos: "0 < n \<Longrightarrow> xs \<noteq> [] \<Longrightarrow> hd (take n xs) = hd xs"
  by (cases xs; cases n) simp_all

lemma spec_sanitize_nonempty: "spec_sanitize s \<noteq> []"
  using spec_prepend_filler_props
  by (simp add: spec_sanitize_def spec_truncate_def spec_max_length_def)

lemma spec_sanitize_hd:
  "hd (spec_sanitize s) = hd (spec_prepend_filler (spec_drop_disallowed (spec_replace_spaces s)))"
  using spec_prepend_filler_props
  by (simp add: spec_sanitize_def spec_truncate_def spec_max_length_def hd_take_pos)

lemma spec_prepend_filler_symbols:
  "\<forall>c\<in>set k. \<not> isalnum c \<Longrightarrow> hd (spec_prepend_filler k) = CHR ''j''"
  by (cases k) (simp_all add: spec_filler_def)

lemma replace_space_symbols:
  "\<forall>c\<in>set s. \<not> isalnum c \<Longrightarrow>
   \<forall>c\<in>set (spec_drop_disallowed (spec_replace_spaces s)). \<not> isalnum c"
  by (auto simp: spec_drop_disallowed_def spec_replace_spaces_def isalnum_def)

lemma ensafen_name_example: "ensafen_name ''my job #1!!'' = ''my-job-1''"
  by (simp add: ensafen_name_def replace_space_def isalnum_def)

text \<open>
  C4. For every input string, \<open>_ensafen_name\<close> performs the four steps of the
  specification in their order (spaces to hyphens, drop what is not alphanumeric, hyphen
  or underscore, prepend the filler \<open>j\<close> if the result is empty or does not start
  alphanumeric, truncate to 128). Its output is never empty, has at most 128 characters
  and starts with an alphanumeric character; \<open>"my job #1!!"\<close> becomes \<open>"my-job-1"\<close>; and an
  input without any alphanumeric character yields a name that starts with the filler.
\<close>

theorem ensafen_name_sanitizes:
  "ensafen_name s = spec_sanitize s \<and>
   ensafen_name s \<noteq> [] \<and>
   length (ensafen_name s) \<le> 128 \<and>
   isalnum (hd (ensafen_name s)) \<and>
   ensafen_name ''my job #1!!'' = ''my-job-1'' \<and>
   ((\<forall>c\<in>set s. \<not> isalnum c) \<longrightarrow> hd (ensafen_name s) = CHR ''j'')"
proof -
  have 1: "ensafen_name s = spec_sanitize s" by (rule ensafen_name_refines)
  have 2: "spec_sanitize s \<noteq> []" by (rule spec_sanitize_nonempty)
  have 3: "length (spec_sanitize s) \<le> 128"
    by (simp add: spec_sanitize_def spec_truncate_def spec_max_length_def)
  have 4: "isalnum (hd (spec_sanitize s))"
    using spec_prepend_filler_props by (simp add: spec_sanitize_hd)
  have 5: "(\<forall>c\<in>set s. \<not> isalnum c) \<longrightarrow> hd (spec_sanitize s) = CHR ''j''"
    using spec_prepend_filler_symbols [OF replace_space_symbols]
    by (simp add: spec_sanitize_hd)
  from 1 2 3 4 5 ensafen_name_example show ?thesis by simp
qed

theorem ensafen_name_sanitizes_witness:
  "ensafen_name ''#!!'' = ''j'' \<and> ensafen_name ''- -'' = ''j---'' \<and>
   spec_sanitize ''#!!'' = ''j''"
proof -
  have a: "\<forall>c\<in>set ''#!!''. \<not> isalnum c" by (simp add: isalnum_def)
  have b: "ensafen_name ''#!!'' = ''j''"
    by (simp add: ensafen_name_def replace_space_def isalnum_def)
  have c: "ensafen_name ''- -'' = ''j---''"
    by (simp add: ensafen_name_def replace_space_def isalnum_def)
  from ensafen_name_sanitizes [of "''#!!''"] a b c show ?thesis by simp
qed




subsection \<open>LSF\<close>

lemma bjobs_loop_no_marker:
  "bjobs_loop started ls = Exhausted k \<Longrightarrow> k = started \<or> k = 1"
  by (induction ls arbitrary: started) (auto split: if_splits)

lemma getJobExitCode_scan_never_fails_without_marker:
  "getJobExitCode_scan bjobs_out bacct_out = Some 1 \<Longrightarrow>
   (\<exists>l\<in>set bjobs_out. found ''Completed <exit>'' l) \<or>
   (\<exists>l\<in>set bacct_out. found ''Completed <exit>'' l)"
proof -
  have a: "bjobs_loop k ls = Returned (Some 1) \<Longrightarrow> \<exists>l\<in>set ls. found ''Completed <exit>'' l"
    for k ls
    by (induction ls arbitrary: k) (auto split: if_splits)
  have b: "bacct_loop ls = Some 1 \<Longrightarrow> \<exists>l\<in>set ls. found ''Completed <exit>'' l" for ls
    by (induction ls) (auto split: if_splits)
  assume "getJobExitCode_scan bjobs_out bacct_out = Some 1"
  then show ?thesis
    by (auto simp: getJobExitCode_scan_def split: scan_exit.splits if_splits dest: a b)
qed

lemma getJobExitCode_scan_examples:
  "getJobExitCode_scan [''Job <7>, Status <DONE>'', ''Mon: Done successfully. The CPU time'']  [] = Some 0"
  "getJobExitCode_scan [''Mon: Started on <host>'', ''Mon: Completed <exit>.''] [] = Some 1"
  "getJobExitCode_scan [''PENDING REASONS:'', ''Mon: Done successfully.''] [] = None"
  "getJobExitCode_scan [''Mon: Started on <host>''] [''Completed <exit>''] = None"
  "getJobExitCode_scan [''Job <7> is not found''] [''Mon: Completed <done>.''] = Some 0"
  "getJobExitCode_scan [''Job <7> is not found''] [''Mon: Completed <exit>.''] = Some 1"
  "getJobExitCode_scan [''Job <7> is not found''] [''No matching job found''] = None"
  by (simp_all add: getJobExitCode_scan_def)

text \<open>
  C8. The claim describes the scan of \<open>getJobExitCode\<close>: first marker of \<open>bjobs -l\<close> wins
  (0, 1 or None), a started job without a terminal marker is None without \<open>bacct\<close>,
  otherwise \<open>bacct -l\<close> decides, and no match is None. The function as written does not get
  that far: for a job id given as text the debug message \<open>"... %d" % job\<close> raises
  \<open>TypeError\<close> before \<open>bjobs\<close> is started, and for an integer \<open>'.' in lsfJobID\<close> raises
  it. So for every input the call raises instead of returning an exit code, also when
  the \<open>bjobs\<close> output says \<open>Done successfully\<close>.
\<close>

theorem getJobExitCode_raises_TypeError:
  "getJobExitCode lsfJobID bjobs_out bacct_out = Inl TypeError \<and>
   getJobExitCode (PyStr ''123'') [''Mon: Done successfully.''] [] = Inl TypeError \<and>
   getJobExitCode_scan [''Mon: Done successfully.''] [] = Some 0"
proof -
  have "getJobExitCode v bjobs_out bacct_out = Inl TypeError" for v bjobs_out bacct_out
    by (cases v) (simp_all add: getJobExitCode_def Let_def)
  then show ?thesis
    by (simp add: getJobExitCode_scan_def)
qed

subsection \<open>Completion events\<close>

lemma called_fields [simp]:
  "bs_id_to_aws_id (called c s) = bs_id_to_aws_id s"
  "aws_id_to_bs_id (called c s) = aws_id_to_bs_id s"
  "killed_job_aws_ids (called c s) = killed_job_aws_ids s"
  "job_definition (called c s) = job_definition s"
  "calls (called c s) = calls s @ [c]"
  by (simp_all add: called_def)

lemma exit_reason_terminal:
  "is_terminal jd \<Longrightarrow>
   dict_get STATE_TO_EXIT_REASON (the (status jd)) =
     Inr (if status jd = Some ''SUCCEEDED'' then FINISHED else FAILED)"
  unfolding is_terminal_def by (elim disjE) (simp_all add: dict_get_def STATE_TO_EXIT_REASON_def)

lemma get_runtime_terminal:
  "is_terminal jd \<Longrightarrow>
   get_runtime W s jd =
     (case startedAt jd of
        None \<Rightarrow> None
      | Some start_ms \<Rightarrow>
          Some (max (of_int ((case stoppedAt jd of Some t \<Rightarrow> t | None \<Rightarrow> unix_now_ms W (calls s))
                              - start_ms) / 1000)
                    (epsilon W)))"
  unfolding is_terminal_def
  by (elim disjE) (simp_all add: get_runtime_def slow_down_def Let_def split: option.splits)

lemma get_runtime_running:
  "status jd = Some ''RUNNING'' \<Longrightarrow>
   get_runtime W s jd =
     (case startedAt jd of
        None \<Rightarrow> None
      | Some start_ms \<Rightarrow>
          Some (max (of_int ((case stoppedAt jd of Some t \<Rightarrow> t | None \<Rightarrow> unix_now_ms W (calls s))
                              - start_ms) / 1000)
                    (epsilon W)))"
  by (simp add: get_runtime_def slow_down_def Let_def split: option.splits)

lemma get_runtime_terminal':
  "is_terminal jd \<Longrightarrow> get_runtime W s jd = spec_wall_time W (calls s) jd"
  by (simp add: get_runtime_terminal spec_wall_time_def)

lemma poll_details_Return:
  "poll_details W s details ack = (ack', Return ev) \<Longrightarrow>
   \<exists>jd\<in>set details. is_terminal jd \<and> jobId jd \<notin> killed_job_aws_ids s \<and>
      map_of (aws_id_to_bs_id s) (jobId jd) = Some (jobID ev) \<and>
      ev = spec_completion_event W (calls s) (jobID ev) jd"
proof (induction details arbitrary: ack)
  case Nil
  then show ?case by simp
next
  case (Cons jd rest)
  show ?case
  proof (cases "is_terminal jd")
    case False
    with Cons show ?thesis by auto
  next
    case True
    show ?thesis
    proof (cases "map_of (aws_id_to_bs_id s) (jobId jd)")
      case None
      with True Cons.prems show ?thesis by (simp add: dict_get_def)
    next
      case (Some b)
      show ?thesis
      proof (cases "jobId jd \<in> killed_job_aws_ids s")
        case k: True
        with True Some Cons.prems
        have "poll_details W s rest (ack @ [(jobId jd, b)]) = (ack', Return ev)"
          by (simp add: dict_get_def Let_def)
        from Cons.IH [OF this] show ?thesis by auto
      next
        case k: False
        from True Some k Cons.prems
        have "ev = spec_completion_event W (calls s) b jd"
          by (simp add: dict_get_def [of "aws_id_to_bs_id s"] Let_def exit_reason_terminal
              get_runtime_terminal' spec_completion_event_def get_exit_code_def
              spec_exit_code_def spec_exit_reason_def)
        moreover from this have "jobID ev = b" by (simp add: spec_completion_event_def)
        ultimately show ?thesis using True Some k by auto
      qed
    qed
  qed
qed

lemma poll_batches_Return:
  "poll_batches W s bs ack = (s1, ack1, Return ev) \<Longrightarrow>
   \<exists>jd cs batch jobs. describe_jobs W cs batch = Inr jobs \<and> jd \<in> set jobs \<and>
      is_terminal jd \<and> jobId jd \<notin> killed_job_aws_ids s \<and>
      map_of (aws_id_to_bs_id s) (jobId jd) = Some (jobID ev) \<and>
      ev = spec_completion_event W (cs @ [DescribeJobs batch]) (jobID ev) jd"
proof (induction bs arbitrary: s ack)
  case Nil
  then show ?case by simp
next
  case (Cons b bs)
  show ?case
  proof (cases "describe_jobs W (calls s) b")
    case (Inl e)
    with Cons.prems show ?thesis by simp
  next
    case (Inr jobs)
    obtain a2 ex where pd: "poll_details W (called (DescribeJobs b) s) jobs ack = (a2, ex)"
      by (cases "poll_details W (called (DescribeJobs b) s) jobs ack")
    show ?thesis
    proof (cases ex)
      case (Return r)
      with Inr pd Cons.prems have "r = ev" by simp
      with Return pd have "poll_details W (called (DescribeJobs b) s) jobs ack = (a2, Return ev)" by simp
      from poll_details_Return [OF this] Inr show ?thesis
        by (auto simp: called_def)
    next
      case (Raise e)
      with Inr pd Cons.prems show ?thesis by simp
    next
      case Finish
      with Inr pd Cons.prems
      have "poll_batches W (called (DescribeJobs b) s) bs a2 = (s1, ack1, Return ev)" by simp
      from Cons.IH [OF this] show ?thesis by simp
    qed
  qed
qed

text \<open>
  C5. When a polling pass returns a completion event that does not come from the local
  sub-scheduler, the backend reported a job detail in a terminal state for a registered,
  not killed job, and the event is built from it: the wall time is the stop timestamp
  (the current time when absent) minus the start timestamp, floored at epsilon and so
  never zero, and absent when no start timestamp is reported; the exit code is the
  container's exit code or the sentinel \<open>EXIT_STATUS_UNAVAILABLE_VALUE\<close>; the exit reason
  is \<open>FINISHED\<close> for \<open>SUCCEEDED\<close> and \<open>FAILED\<close> for \<open>FAILED\<close>.
\<close>

theorem poll_pass_completion_event:
  assumes "poll_pass W s = (s', Inr (Some ev))"
    and "getUpdatedLocalJob W (calls s) = None"
    and "0 < epsilon W"
  shows "\<exists>jd cs batch jobs.
      describe_jobs W cs batch = Inr jobs \<and> jd \<in> set jobs \<and>
      is_terminal jd \<and> jobId jd \<notin> killed_job_aws_ids s \<and>
      map_of (aws_id_to_bs_id s) (jobId jd) = Some (jobID ev) \<and>
      ev = spec_completion_event W (cs @ [DescribeJobs batch]) (jobID ev) jd \<and>
      wallTime ev \<noteq> Some 0 \<and>
      (startedAt jd = None \<longrightarrow> wallTime ev = None) \<and>
      (container jd = None \<longrightarrow> exitStatus ev = EXIT_STATUS_UNAVAILABLE_VALUE W) \<and>
      (status jd = Some ''SUCCEEDED'' \<longrightarrow> exitReason ev = FINISHED) \<and>
      (status jd = Some ''FAILED'' \<longrightarrow> exitReason ev = FAILED)"
proof -
  obtain s1 ack ex where pb:
    "poll_batches W (called GetUpdatedLocalJob s) (batches (map fst (aws_id_to_bs_id s))) [] = (s1, ack, ex)"
    by (cases "poll_batches W (called GetUpdatedLocalJob s) (batches (map fst (aws_id_to_bs_id s))) []")
  obtain s2 r where da: "drop_acknowledged s1 ack = (s2, r)"
    by (cases "drop_acknowledged s1 ack")
  from assms(1,2) pb da have "ex = Return ev"
    by (auto simp: poll_pass_def split: option.splits loop_exit.splits)
  with pb have "poll_batches W (called GetUpdatedLocalJob s) (batches (map fst (aws_id_to_bs_id s))) []
      = (s1, ack, Return ev)" by simp
  from poll_batches_Return [OF this]
  obtain jd cs batch jobs where j:
    "describe_jobs W cs batch = Inr jobs" "jd \<in> set jobs" "is_terminal jd"
    "jobId jd \<notin> killed_job_aws_ids s"
    "map_of (aws_id_to_bs_id s) (jobId jd) = Some (jobID ev)"
    "ev = spec_completion_event W (cs @ [DescribeJobs batch]) (jobID ev) jd"
    by auto
  let ?e = "spec_completion_event W (cs @ [DescribeJobs batch]) (jobID ev) jd"
  have w0: "wallTime ?e \<noteq> Some 0"
    using assms(3) by (auto simp: spec_completion_event_def spec_wall_time_def split: option.splits)
  have w1: "startedAt jd = None \<longrightarrow> wallTime ?e = None"
    by (simp add: spec_completion_event_def spec_wall_time_def)
  have x: "container jd = None \<longrightarrow> exitStatus ?e = EXIT_STATUS_UNAVAILABLE_VALUE W"
    by (simp add: spec_completion_event_def spec_exit_code_def)
  have r1: "status jd = Some ''SUCCEEDED'' \<longrightarrow> exitReason ?e = FINISHED"
    by (simp add: spec_completion_event_def spec_exit_reason_def)
  have r2: "status jd = Some ''FAILED'' \<longrightarrow> exitReason ?e = FAILED"
    by (simp add: spec_completion_event_def spec_exit_reason_def)
  from j w0 w1 x r1 r2 show ?thesis by metis
qed

lemma batches_short: "0 < length xs \<Longrightarrow> length xs \<le> 100 \<Longrightarrow> batches xs = [xs]"
  by (subst batches.simps, subst batches.simps) (simp add: MAX_POLL_COUNT_def)

theorem poll_pass_completion_event_witness:
  "snd (poll_pass (example_world (\<lambda>cs ids. Inr (map succeeded_detail ids)) (\<lambda>cs a. None)) one_job) =
     Inr (Some \<lparr>jobID = 1, exitStatus = 255, wallTime = Some 2, exitReason = FINISHED\<rparr>) \<and>
   (\<exists>jd. is_terminal jd \<and> jobId jd \<notin> killed_job_aws_ids one_job \<and>
         map_of (aws_id_to_bs_id one_job) (jobId jd) = Some 1)"
proof -
  let ?W = "example_world (\<lambda>cs ids. Inr (map succeeded_detail ids)) (\<lambda>cs a. None)"
  let ?ev = "\<lparr>jobID = 1, exitStatus = 255, wallTime = Some 2, exitReason = FINISHED\<rparr>"
  have t: "is_terminal (succeeded_detail ''a1'')"
    by (simp add: is_terminal_def succeeded_detail_def)
  have rt: "get_runtime ?W s (succeeded_detail ''a1'') = Some 2" for s
    by (simp add: get_runtime_terminal [OF t]) (simp add: succeeded_detail_def example_world_def)
  have er: "dict_get STATE_TO_EXIT_REASON (the (status (succeeded_detail ''a1''))) = Inr FINISHED"
    by (simp add: exit_reason_terminal [OF t]) (simp add: succeeded_detail_def)
  have ec: "get_exit_code ?W (succeeded_detail ''a1'') = 255"
    by (simp add: get_exit_code_def succeeded_detail_def example_world_def)
  have j: "jobId (succeeded_detail ''a1'') = ''a1''" by (simp add: succeeded_detail_def)
  have d: "describe_jobs ?W cs ids = Inr (map succeeded_detail ids)" for cs ids
    by (simp add: example_world_def)
  have l: "getUpdatedLocalJob ?W cs = None" for cs by (simp add: example_world_def)
  have e: "0 < epsilon ?W" by (simp add: example_world_def)
  have b: "batches (map fst (aws_id_to_bs_id one_job)) = [[''a1'']]"
    by (simp add: batches_short one_job_def)
  have p: "snd (poll_pass ?W one_job) = Inr (Some ?ev)"
    by code_simp
  then have "poll_pass ?W one_job = (fst (poll_pass ?W one_job), Inr (Some ?ev))"
    by (metis prod.collapse)
  from poll_pass_completion_event [OF this l e]
  obtain jd where "is_terminal jd" "jobId jd \<notin> killed_job_aws_ids one_job"
    "map_of (aws_id_to_bs_id one_job) (jobId jd) = Some (jobID ?ev)"
    by blast
  with p show ?thesis by auto
qed

lemma keys_dict_set: "fst ` set (dict_set d k v) = insert k (fst ` set d)"
  by (simp add: dict_set_def dom_update)

lemma set_dict_set: "set (dict_set d k v) \<subseteq> insert (k, v) (set d)"
  unfolding dict_set_def by (induction d) auto

lemma get_runtime_running_nonzero:
  "0 < epsilon W \<Longrightarrow> status jd = Some ''RUNNING'' \<Longrightarrow> get_runtime W s jd = Some r \<Longrightarrow>
   0 < r \<and> startedAt jd \<noteq> None"
  by (auto simp: get_runtime_running split: option.splits)

lemma get_runtime_running_None:
  "status jd = Some ''RUNNING'' \<Longrightarrow> get_runtime W s jd = None \<Longrightarrow> startedAt jd = None"
  by (auto simp: get_runtime_running split: option.splits)

lemma running_details_keys:
  "0 < epsilon W \<Longrightarrow> running_details W s jobs acc = Inr m \<Longrightarrow>
   fst ` set m = fst ` set acc \<union> {b. \<exists>jd\<in>set jobs. measurable s b jd}"
proof (induction jobs arbitrary: acc)
  case Nil
  then show ?case by simp
next
  case (Cons jd rest)
  show ?case
  proof (cases "status jd = Some ''RUNNING''")
    case False
    with Cons.prems have "running_details W s rest acc = Inr m" by simp
    from Cons.IH [OF Cons.prems(1) this] False show ?thesis
      by (auto simp: measurable_def)
  next
    case True
    show ?thesis
    proof (cases "map_of (aws_id_to_bs_id s) (jobId jd)")
      case None
      with True Cons.prems show ?thesis by (simp add: dict_get_def)
    next
      case (Some b)
      show ?thesis
      proof (cases "get_runtime W s jd")
        case n: None
        with True Some Cons.prems have "running_details W s rest acc = Inr m"
          by (simp add: dict_get_def)
        from Cons.IH [OF Cons.prems(1) this] get_runtime_running_None [OF True n]
        show ?thesis by (auto simp: measurable_def)
      next
        case r: (Some r)
        from get_runtime_running_nonzero [OF Cons.prems(1) True r]
        have r0: "r \<noteq> 0" and st: "startedAt jd \<noteq> None" by auto
        with True Some r Cons.prems
        have "running_details W s rest (dict_set acc b r) = Inr m"
          by (simp add: dict_get_def)
        from Cons.IH [OF Cons.prems(1) this] True Some st
        show ?thesis by (auto simp: measurable_def keys_dict_set)
      qed
    qed
  qed
qed

lemma measurable_called [simp]: "measurable (called c s) b jd = measurable s b jd"
  by (simp add: measurable_def)

lemma running_batches_keys:
  "0 < epsilon W \<Longrightarrow> running_batches W s bs acc = (s', Inr m) \<Longrightarrow>
   fst ` set m = fst ` set acc \<union> {b. \<exists>jd\<in>set (yielded W (calls s) bs). measurable s b jd}"
proof (induction bs arbitrary: s acc)
  case Nil
  then show ?case by simp
next
  case (Cons b bs)
  show ?case
  proof (cases "describe_jobs W (calls s) b")
    case (Inl e)
    with Cons.prems show ?thesis by simp
  next
    case (Inr jobs)
    show ?thesis
    proof (cases "running_details W (called (DescribeJobs b) s) jobs acc")
      case (Inl e)
      with Inr Cons.prems show ?thesis by simp
    next
      case r: (Inr acc1)
      with Inr Cons.prems
      have "running_batches W (called (DescribeJobs b) s) bs acc1 = (s', Inr m)" by simp
      from Cons.IH [OF Cons.prems(1) this] running_details_keys [OF Cons.prems(1) r] Inr
      show ?thesis by auto
    qed
  qed
qed

lemma running_details_positive:
  "0 < epsilon W \<Longrightarrow> running_details W s jobs acc = Inr m \<Longrightarrow>
   \<forall>r\<in>snd ` set acc. 0 < r \<Longrightarrow> \<forall>r\<in>snd ` set m. 0 < r"
proof (induction jobs arbitrary: acc)
  case Nil
  then show ?case by simp
next
  case (Cons jd rest)
  show ?case
  proof (cases "status jd = Some ''RUNNING''")
    case False
    with Cons show ?thesis by simp
  next
    case True
    show ?thesis
    proof (cases "map_of (aws_id_to_bs_id s) (jobId jd)")
      case None
      with True Cons.prems show ?thesis by (simp add: dict_get_def)
    next
      case (Some b)
      show ?thesis
      proof (cases "get_runtime W s jd")
        case n: None
        with True Some Cons show ?thesis by (simp add: dict_get_def)
      next
        case r: (Some r)
        from get_runtime_running_nonzero [OF Cons.prems(1) True r]
        have r0: "0 < r" by auto
        with True Some r Cons.prems(2)
        have e: "running_details W s rest (dict_set acc b r) = Inr m"
          by (simp add: dict_get_def)
        have "set (dict_set acc b r) \<subseteq> insert (b, r) (set acc)"
          by (rule set_dict_set)
        with r0 Cons.prems(3) have "\<forall>r\<in>snd ` set (dict_set acc b r). 0 < r" by fastforce
        from Cons.IH [OF Cons.prems(1) e this] show ?thesis .
      qed
    qed
  qed
qed

lemma running_batches_positive:
  "0 < epsilon W \<Longrightarrow> running_batches W s bs acc = (s', Inr m) \<Longrightarrow>
   \<forall>r\<in>snd ` set acc. 0 < r \<Longrightarrow> \<forall>r\<in>snd ` set m. 0 < r"
proof (induction bs arbitrary: s acc)
  case Nil
  then show ?case by simp
next
  case (Cons b bs)
  show ?case
  proof (cases "describe_jobs W (calls s) b")
    case (Inl e)
    with Cons.prems show ?thesis by simp
  next
    case (Inr jobs)
    show ?thesis
    proof (cases "running_details W (called (DescribeJobs b) s) jobs acc")
      case (Inl e)
      with Inr Cons.prems show ?thesis by simp
    next
      case r: (Inr acc1)
      with Inr Cons.prems
      have "running_batches W (called (DescribeJobs b) s) bs acc1 = (s', Inr m)" by simp
      from Cons.IH [OF Cons.prems(1) this running_details_positive [OF Cons.prems(1) r Cons.prems(3)]]
      show ?thesis .
    qed
  qed
qed

text \<open>
  C10. When \<open>getRunningBatchJobIDs\<close> returns its dictionary, a job id is a key of it if
  and only if the backend reported, in this call, a job detail with status \<open>RUNNING\<close>
  and a start timestamp for a handle registered to that id; every runtime in it is
  positive. So a job that is \<open>RUNNING\<close> without a start timestamp, and a job in any other
  status, is left out.
\<close>

theorem getRunningBatchJobIDs_keys:
  assumes "getRunningBatchJobIDs W s = (s', Inr m)" and "0 < epsilon W"
  shows "(bs_id \<in> fst ` set m) =
           (\<exists>jd\<in>set (yielded W (calls s) (batches (map fst (aws_id_to_bs_id s)))).
              status jd = Some ''RUNNING'' \<and> startedAt jd \<noteq> None \<and>
              map_of (aws_id_to_bs_id s) (jobId jd) = Some bs_id) \<and>
         (\<forall>r\<in>snd ` set m. 0 < r)"
proof -
  from assms(1)
  have r: "running_batches W s (batches (map fst (aws_id_to_bs_id s))) [] = (s', Inr m)"
    by (simp add: getRunningBatchJobIDs_def)
  from running_batches_keys [OF assms(2) r] running_batches_positive [OF assms(2) r]
  show ?thesis by (auto simp: measurable_def)
qed

theorem getRunningBatchJobIDs_keys_witness:
  "snd (getRunningBatchJobIDs running_world two_jobs) = Inr [(1, 4)] \<and>
   (\<exists>jd\<in>set (yielded running_world (calls two_jobs) (batches (map fst (aws_id_to_bs_id two_jobs)))).
      status jd = Some ''RUNNING'' \<and> startedAt jd \<noteq> None \<and>
      map_of (aws_id_to_bs_id two_jobs) (jobId jd) = Some 1) \<and>
   \<not> (\<exists>jd\<in>set (yielded running_world (calls two_jobs) (batches (map fst (aws_id_to_bs_id two_jobs)))).
      status jd = Some ''RUNNING'' \<and> startedAt jd \<noteq> None \<and>
      map_of (aws_id_to_bs_id two_jobs) (jobId jd) = Some 2)"
proof -
  have p: "snd (getRunningBatchJobIDs running_world two_jobs) = Inr [(1, 4)]"
    by code_simp
  then have q: "getRunningBatchJobIDs running_world two_jobs =
      (fst (getRunningBatchJobIDs running_world two_jobs), Inr [(1, 4)])"
    by (metis prod.collapse)
  have e: "0 < epsilon running_world" by (simp add: running_world_def example_world_def)
  from getRunningBatchJobIDs_keys [OF q e, of 1] getRunningBatchJobIDs_keys [OF q e, of 2] p
  show ?thesis by simp
qed

lemma same_registry_refl [simp]: "same_registry s s"
  by (simp add: same_registry_def)

lemma same_registry_called [simp]: "same_registry s (called c s1) = same_registry s s1"
  by (simp add: same_registry_def)

lemma same_registry_called_left [simp]: "same_registry (called c s) s1 = same_registry s s1"
  by (simp add: same_registry_def)

lemma same_registry_trans: "same_registry s s1 \<Longrightarrow> same_registry s1 s2 \<Longrightarrow> same_registry s s2"
  by (simp add: same_registry_def)

lemma retry_try_terminate:
  "retry ds (try_terminate_body W a) s = (s1, r) \<Longrightarrow>
   \<exists>cs. calls s1 = calls s @ cs @ [TerminateJob a] \<and> list_all cancel_or_sleep cs \<and>
        same_registry s s1 \<and>
        killed_job_aws_ids s1 = insert a (killed_job_aws_ids s) \<and>
        terminate_job W (calls s @ cs) a = (case r of Inl e \<Rightarrow> Some e | Inr u \<Rightarrow> None)"
proof (induction ds arbitrary: s)
  case Nil
  then show ?case
    by (auto simp: try_terminate_body_def Let_def same_registry_def split: option.splits)
next
  case (Cons d ds)
  let ?s1 = "s\<lparr>killed_job_aws_ids := insert a (killed_job_aws_ids s)\<rparr>"
  show ?case
  proof (cases "terminate_job W (calls s) a = Some BotoServerError")
    case False
    with Cons.prems show ?thesis
      by (auto simp: try_terminate_body_def Let_def same_registry_def split: option.splits)
  next
    case True
    then have b: "try_terminate_body W a s = (called (TerminateJob a) ?s1, Inl BotoServerError)"
      by (simp add: try_terminate_body_def Let_def)
    with Cons.prems
    have "retry ds (try_terminate_body W a) (called (Sleep d) (called (TerminateJob a) ?s1)) = (s1, r)"
      by simp
    from Cons.IH [OF this] obtain cs where
      c: "calls s1 = calls s @ [TerminateJob a, Sleep d] @ cs @ [TerminateJob a]"
      and l: "list_all cancel_or_sleep cs"
      and g: "same_registry s s1"
      and k: "killed_job_aws_ids s1 = insert a (killed_job_aws_ids s)"
      and t: "terminate_job W (calls s @ [TerminateJob a, Sleep d] @ cs) a =
                (case r of Inl e \<Rightarrow> Some e | Inr u \<Rightarrow> None)"
      by (auto simp: same_registry_def)
    have "list_all cancel_or_sleep ([TerminateJob a, Sleep d] @ cs)"
      using l by (simp add: cancel_or_sleep_def)
    with c g k t show ?thesis
      by (intro exI [of _ "[TerminateJob a, Sleep d] @ cs"]) simp
  qed
qed

lemmas try_terminate_effect = retry_try_terminate [of "retry_intervals W" W for W, folded try_terminate_def]

lemma terminate_all_effect:
  "terminate_all W as s = (s1, r) \<Longrightarrow>
   \<exists>cs. calls s1 = calls s @ cs \<and> list_all cancel_or_sleep cs \<and> same_registry s s1 \<and>
        killed_job_aws_ids s \<subseteq> killed_job_aws_ids s1 \<and>
        (case r of
           Inr u \<Rightarrow> (\<forall>a\<in>set as. TerminateJob a \<in> set cs) \<and> set as \<subseteq> killed_job_aws_ids s1
         | Inl e \<Rightarrow> \<exists>a\<in>set as. \<exists>cs0. cs = cs0 @ [TerminateJob a] \<and>
                     terminate_job W (calls s @ cs0) a = Some e)"
proof (induction as arbitrary: s)
  case Nil
  then show ?case by auto
next
  case (Cons a as)
  obtain s2 r2 where t: "try_terminate W a s = (s2, r2)" by (cases "try_terminate W a s")
  from try_terminate_effect [OF t] obtain cs where
    c: "calls s2 = calls s @ cs @ [TerminateJob a]" and l: "list_all cancel_or_sleep cs"
    and g: "same_registry s s2" and k: "killed_job_aws_ids s2 = insert a (killed_job_aws_ids s)"
    and j: "terminate_job W (calls s @ cs) a = (case r2 of Inl e \<Rightarrow> Some e | Inr u \<Rightarrow> None)"
    by blast
  have l2: "list_all cancel_or_sleep (cs @ [TerminateJob a])"
    using l by (simp add: cancel_or_sleep_def)
  show ?case
  proof (cases r2)
    case (Inl e)
    with t Cons.prems have "s1 = s2" "r = Inl e" by auto
    with c l2 g k j Inl show ?thesis
      by (intro exI [of _ "cs @ [TerminateJob a]"]) auto
  next
    case (Inr u)
    with t Cons.prems have "terminate_all W as s2 = (s1, r)" by simp
    from Cons.IH [OF this] obtain cs' where
      c': "calls s1 = calls s2 @ cs'" and l': "list_all cancel_or_sleep cs'"
      and g': "same_registry s2 s1" and k': "killed_job_aws_ids s2 \<subseteq> killed_job_aws_ids s1"
      and j': "(case r of
           Inr u \<Rightarrow> (\<forall>a\<in>set as. TerminateJob a \<in> set cs') \<and> set as \<subseteq> killed_job_aws_ids s1
         | Inl e \<Rightarrow> \<exists>a\<in>set as. \<exists>cs0. cs' = cs0 @ [TerminateJob a] \<and>
                     terminate_job W (calls s2 @ cs0) a = Some e)"
      by blast
    have 1: "calls s1 = calls s @ (cs @ [TerminateJob a]) @ cs'" using c c' by simp
    have 2: "list_all cancel_or_sleep ((cs @ [TerminateJob a]) @ cs')" using l2 l' by simp
    have 3: "same_registry s s1" using g g' by (rule same_registry_trans)
    have 4: "killed_job_aws_ids s \<subseteq> killed_job_aws_ids s1" using k k' by auto
    have 5: "(case r of
           Inr u \<Rightarrow> (\<forall>b\<in>set (a # as). TerminateJob b \<in> set ((cs @ [TerminateJob a]) @ cs')) \<and>
                    set (a # as) \<subseteq> killed_job_aws_ids s1
         | Inl e \<Rightarrow> \<exists>b\<in>set (a # as). \<exists>cs0. (cs @ [TerminateJob a]) @ cs' = cs0 @ [TerminateJob b] \<and>
                     terminate_job W (calls s @ cs0) b = Some e)"
    proof (cases r)
      case (Inr u)
      with j' k k' show ?thesis by auto
    next
      case (Inl e)
      with j' obtain b cs0 where "b \<in> set as" "cs' = cs0 @ [TerminateJob b]"
        "terminate_job W (calls s2 @ cs0) b = Some e" by auto
      with c Inl show ?thesis
        by (auto intro!: bexI [of _ b] exI [of _ "cs @ [TerminateJob a] @ cs0"])
    qed
    from 1 2 3 4 5 show ?thesis by blast
  qed
qed

lemma retry_destroy_job_definition:
  "retry ds (destroy_job_definition_body W) s = (s1, r) \<Longrightarrow>
   \<exists>cs. calls s1 = calls s @ cs \<and> list_all deregister_or_sleep cs \<and>
        bs_id_to_aws_id s1 = bs_id_to_aws_id s \<and> aws_id_to_bs_id s1 = aws_id_to_bs_id s \<and>
        killed_job_aws_ids s1 = killed_job_aws_ids s \<and>
        (\<forall>arn. job_definition s = Some arn \<longrightarrow> DeregisterJobDefinition arn \<in> set cs) \<and>
        (case r of Inr u \<Rightarrow> job_definition s1 = None | Inl e \<Rightarrow> job_definition s1 = job_definition s)"
proof (induction ds arbitrary: s)
  case Nil
  then show ?case
    by (auto simp: destroy_job_definition_body_def deregister_or_sleep_def split: option.splits)
next
  case (Cons d ds)
  show ?case
  proof (cases "job_definition s")
    case None
    with Cons.prems show ?thesis
      by (auto simp: destroy_job_definition_body_def)
  next
    case (Some arn)
    show ?thesis
    proof (cases "deregister_job_definition W (calls s) arn = Some BotoServerError")
      case False
      with Some Cons.prems show ?thesis
        by (auto simp: destroy_job_definition_body_def deregister_or_sleep_def split: option.splits)
    next
      case True
      with Some have b: "destroy_job_definition_body W s =
          (called (DeregisterJobDefinition arn) s, Inl BotoServerError)"
        by (simp add: destroy_job_definition_body_def)
      with Cons.prems
      have "retry ds (destroy_job_definition_body W)
              (called (Sleep d) (called (DeregisterJobDefinition arn) s)) = (s1, r)"
        by simp
      from Cons.IH [OF this] obtain cs where
        c: "calls s1 = calls s @ [DeregisterJobDefinition arn, Sleep d] @ cs"
        and l: "list_all deregister_or_sleep cs"
        and g: "bs_id_to_aws_id s1 = bs_id_to_aws_id s" "aws_id_to_bs_id s1 = aws_id_to_bs_id s"
          "killed_job_aws_ids s1 = killed_job_aws_ids s"
        and j: "(case r of Inr u \<Rightarrow> job_definition s1 = None
                 | Inl e \<Rightarrow> job_definition s1 = job_definition s)"
        by (auto split: sum.splits)
      have "list_all deregister_or_sleep ([DeregisterJobDefinition arn, Sleep d] @ cs)"
        using l by (simp add: deregister_or_sleep_def)
      with c g j Some show ?thesis
        by (intro exI [of _ "[DeregisterJobDefinition arn, Sleep d] @ cs"]) auto
    qed
  qed
qed

lemmas destroy_job_definition_effect =
  retry_destroy_job_definition [of "retry_intervals W" W for W, folded destroy_job_definition_def]





lemma poll_batches_calls:
  "poll_batches W s bs ack = (s1, ack1, ex) \<Longrightarrow> \<exists>cs. calls s1 = calls s @ cs"
proof (induction bs arbitrary: s ack)
  case Nil
  then show ?case by simp
next
  case (Cons b bs)
  show ?case
  proof (cases "describe_jobs W (calls s) b")
    case (Inl e)
    with Cons.prems show ?thesis by auto
  next
    case (Inr jobs)
    obtain a2 ex2 where pd: "poll_details W (called (DescribeJobs b) s) jobs ack = (a2, ex2)"
      by (cases "poll_details W (called (DescribeJobs b) s) jobs ack")
    show ?thesis
    proof (cases "ex2 = Finish")
      case True
      with Inr pd Cons.prems
      have "poll_batches W (called (DescribeJobs b) s) bs a2 = (s1, ack1, ex)" by simp
      from Cons.IH [OF this] show ?thesis by auto
    next
      case False
      with Inr pd Cons.prems have "s1 = called (DescribeJobs b) s"
        by (cases ex2) auto
      then show ?thesis by simp
    qed
  qed
qed

lemma drop_acknowledged_calls:
  "drop_acknowledged s ack = (s1, r) \<Longrightarrow> calls s1 = calls s \<and> job_definition s1 = job_definition s"
proof (induction ack arbitrary: s)
  case Nil
  then show ?case by simp
next
  case (Cons p ack)
  obtain a b where p: "p = (a, b)" by (cases p)
  show ?case
  proof (cases "dict_del (aws_id_to_bs_id s) a")
    case (Inl e)
    with p Cons.prems show ?thesis by auto
  next
    case d1: (Inr d1)
    show ?thesis
    proof (cases "dict_del (bs_id_to_aws_id s) b")
      case (Inl e)
      with p d1 Cons.prems show ?thesis by auto
    next
      case d2: (Inr d2)
      with p d1 Cons.prems
      have "drop_acknowledged (s\<lparr>aws_id_to_bs_id := d1, bs_id_to_aws_id := d2,
                    killed_job_aws_ids := killed_job_aws_ids s - {a}\<rparr>) ack = (s1, r)"
        by simp
      from Cons.IH [OF this] show ?thesis by simp
    qed
  qed
qed

lemma poll_pass_calls:
  assumes "poll_pass W s = (s1, r)"
  shows "\<exists>cs. calls s1 = calls s @ cs"
proof (cases "getUpdatedLocalJob W (calls s)")
  case (Some ev)
  with assms show ?thesis by (auto simp: poll_pass_def)
next
  case None
  obtain s2 ack ex where pb:
    "poll_batches W (called GetUpdatedLocalJob s) (batches (map fst (aws_id_to_bs_id s))) [] = (s2, ack, ex)"
    by (cases "poll_batches W (called GetUpdatedLocalJob s) (batches (map fst (aws_id_to_bs_id s))) []")
  obtain s3 e where da: "drop_acknowledged s2 ack = (s3, e)"
    by (cases "drop_acknowledged s2 ack")
  from assms None pb da have "s1 = s3"
    by (auto simp: poll_pass_def split: option.splits loop_exit.splits)
  with poll_batches_calls [OF pb] drop_acknowledged_calls [OF da] show ?thesis by auto
qed

lemma loop_returns:
  assumes c: "clock_advances W" and m: "0 < maxWait"
  shows "of_int maxWait - (now W (calls s) - entry) \<le> of_nat n * min (of_int maxWait / 2) 1 \<Longrightarrow>
         \<exists>res. getUpdatedBatchJob_loop (Suc n) W maxWait entry s = Some res"
proof (induction n arbitrary: s)
  case 0
  then have "\<not> now W (calls s) - entry < of_int maxWait" by simp
  with m show ?case by simp
next
  case (Suc n)
  let ?d = "min (of_int maxWait / 2) (1::rat)"
  show ?case
  proof (cases "now W (calls s) - entry < of_int maxWait")
    case False
    with m show ?thesis by simp
  next
    case True
    obtain s1 r where p: "poll_pass W s = (s1, r)" by (cases "poll_pass W s")
    show ?thesis
    proof (cases "r = Inr None")
      case False
      with p True show ?thesis
        by (cases r) (auto split: option.splits)
    next
      case r: True
      from poll_pass_calls [OF p] c have 1: "now W (calls s) \<le> now W (calls s1)"
        by (auto simp: clock_advances_def)
      from c have 2: "now W (calls s1) + ?d \<le> now W (calls (called (Sleep ?d) s1))"
        by (simp add: clock_advances_def)
      from Suc.prems have "of_int maxWait - (now W (calls s) - entry) \<le> of_nat n * ?d + ?d"
        by (simp add: algebra_simps)
      with 1 2
      have "of_int maxWait - (now W (calls (called (Sleep ?d) s1)) - entry) \<le> of_nat n * ?d"
        by linarith
      from Suc.IH [OF this] obtain res where
        "getUpdatedBatchJob_loop (Suc n) W maxWait entry (called (Sleep ?d) s1) = Some res" ..
      with p r True m show ?thesis
        by (simp del: getUpdatedBatchJob_loop.simps add: getUpdatedBatchJob_loop.simps(2) [of "Suc n"])
    qed
  qed
qed

lemma half_le_step: "0 < maxWait \<Longrightarrow> 1 / 2 \<le> min (of_int maxWait / 2) (1::rat)"
proof -
  assume "0 < maxWait"
  then have "1 \<le> maxWait" by simp
  then have "(1::rat) \<le> of_int maxWait" by (metis of_int_1 of_int_le_iff)
  then show ?thesis by simp
qed

lemma enough_turns:
  assumes "0 < maxWait" and "2 * nat maxWait \<le> n"
  shows "of_int maxWait \<le> of_nat n * min (of_int maxWait / 2) (1::rat)"
proof -
  from assms(2) have "2 * of_nat (nat maxWait) \<le> (of_nat n :: rat)"
    by (metis of_nat_le_iff of_nat_mult of_nat_numeral)
  with assms(1) have 1: "2 * of_int maxWait \<le> (of_nat n :: rat)" by simp
  have "of_nat n * (1 / 2) \<le> of_nat n * min (of_int maxWait / 2) (1::rat)"
    by (rule mult_left_mono [OF half_le_step [OF assms(1)]]) simp
  with 1 show ?thesis by simp
qed

text \<open>
  C6, as the code has it. With \<open>maxWait\<close> zero the call is exactly one polling pass:
  it returns what the pass returns (a completion event, or None) and does not sleep.
  With \<open>maxWait\<close> positive, a turn of the loop that starts before the deadline and whose
  pass finds nothing sleeps \<open>min(maxWait/2, 1)\<close> seconds, a length fixed by \<open>maxWait\<close> alone,
  and goes on to the next turn; a pass that returns or raises ends the call; a turn that
  starts at or after the deadline returns None. On a clock that advances, the call
  returns after at most \<open>2 * maxWait + 1\<close> turns.
\<close>

theorem getUpdatedBatchJob_waits:
  "getUpdatedBatchJob (Suc n) W 0 s = Some (poll_pass W s) \<and>
   (0 < maxWait \<and> now W (calls s) - entry < of_int maxWait \<and> poll_pass W s = (s1, Inr None) \<longrightarrow>
      getUpdatedBatchJob_loop (Suc n) W maxWait entry s =
        getUpdatedBatchJob_loop n W maxWait entry (called (Sleep (min (of_int maxWait / 2) 1)) s1) \<and>
      min (of_int maxWait / 2) 1 \<le> (1::rat)) \<and>
   (0 < maxWait \<and> now W (calls s) - entry < of_int maxWait \<and> poll_pass W s = (s1, r) \<and>
      r \<noteq> Inr None \<longrightarrow>
      getUpdatedBatchJob_loop (Suc n) W maxWait entry s = Some (s1, r)) \<and>
   (0 < maxWait \<and> of_int maxWait \<le> now W (calls s) - entry \<longrightarrow>
      getUpdatedBatchJob_loop (Suc n) W maxWait entry s = Some (s, Inr None)) \<and>
   (clock_advances W \<and> 0 < maxWait \<and> 2 * nat maxWait \<le> n \<longrightarrow>
      (\<exists>res. getUpdatedBatchJob (Suc n) W maxWait s = Some res))"
proof -
  have a: "getUpdatedBatchJob (Suc n) W 0 s = Some (poll_pass W s)"
  proof -
    obtain s2 r2 where p: "poll_pass W s = (s2, r2)" by (cases "poll_pass W s")
    then show ?thesis
      by (cases r2) (auto simp: getUpdatedBatchJob_def split: option.splits)
  qed
  have b: "0 < maxWait \<and> now W (calls s) - entry < of_int maxWait \<and> poll_pass W s = (s1, Inr None) \<longrightarrow>
      getUpdatedBatchJob_loop (Suc n) W maxWait entry s =
        getUpdatedBatchJob_loop n W maxWait entry (called (Sleep (min (of_int maxWait / 2) 1)) s1) \<and>
      min (of_int maxWait / 2) 1 \<le> (1::rat)"
    by auto
  have c: "0 < maxWait \<and> now W (calls s) - entry < of_int maxWait \<and> poll_pass W s = (s1, r) \<and>
      r \<noteq> Inr None \<longrightarrow>
      getUpdatedBatchJob_loop (Suc n) W maxWait entry s = Some (s1, r)"
    by (cases r) (auto split: option.splits)
  have d: "0 < maxWait \<and> of_int maxWait \<le> now W (calls s) - entry \<longrightarrow>
      getUpdatedBatchJob_loop (Suc n) W maxWait entry s = Some (s, Inr None)"
    by auto
  have e: "clock_advances W \<and> 0 < maxWait \<and> 2 * nat maxWait \<le> n \<longrightarrow>
      (\<exists>res. getUpdatedBatchJob (Suc n) W maxWait s = Some res)"
  proof (intro impI, elim conjE)
    assume h: "clock_advances W" "0 < maxWait" "2 * nat maxWait \<le> n"
    from enough_turns [OF h(2,3)]
    have "of_int maxWait - (now W (calls s) - now W (calls s)) \<le> of_nat n * min (of_int maxWait / 2) 1"
      by simp
    from loop_returns [OF h(1,2) this] show "\<exists>res. getUpdatedBatchJob (Suc n) W maxWait s = Some res"
      by (simp only: getUpdatedBatchJob_def)
  qed
  from a b c d e show ?thesis by blast
qed

theorem getUpdatedBatchJob_waits_witness:
  "clock_advances slow_pass_world \<and>
   getUpdatedBatchJob 3 slow_pass_world 1 init =
     Some (init\<lparr>calls := [GetUpdatedLocalJob, Sleep (1 / 2), GetUpdatedLocalJob, Sleep (1 / 2)]\<rparr>,
           Inr None) \<and>
   getUpdatedBatchJob 1 slow_pass_world 0 init = Some (poll_pass slow_pass_world init)"
proof -
  have n: "now slow_pass_world =
      (\<lambda>cs. slept cs + 3 / 10 * of_nat (length (filter (\<lambda>c. c = GetUpdatedLocalJob) cs)))"
    by (simp add: slow_pass_world_def)
  have c: "clock_advances slow_pass_world"
  proof -
    have p: "0 \<le> slept cs" for cs
      unfolding slept_def by (induction cs) (auto split: call.splits)
    have a: "slept (cs @ cs') = slept cs + slept cs'" for cs cs'
      by (simp add: slept_def)
    have s: "slept [Sleep d] = max d 0" for d
      by (simp add: slept_def)
    let ?g = "\<lambda>cs. 3 / 10 * (of_nat (length (filter (\<lambda>c. c = GetUpdatedLocalJob) cs)) :: rat)"
    have g: "?g (cs @ cs') = ?g cs + ?g cs'" "0 \<le> ?g cs" for cs cs'
      by (simp_all add: algebra_simps)
    have 1: "slept cs + ?g cs \<le> slept (cs @ cs') + ?g (cs @ cs')" for cs cs'
      using p [of cs'] g(2) [of cs'] by (simp only: a g(1))
    have 2: "slept cs + ?g cs + d \<le> slept (cs @ [Sleep d]) + ?g (cs @ [Sleep d])" for cs d
      by (simp add: a s)
    show ?thesis
      unfolding clock_advances_def n using 1 2 by blast
  qed
  have r: "getUpdatedBatchJob 3 slow_pass_world 1 init =
     Some (init\<lparr>calls := [GetUpdatedLocalJob, Sleep (1 / 2), GetUpdatedLocalJob, Sleep (1 / 2)]\<rparr>,
           Inr None)"
    by code_simp
  from getUpdatedBatchJob_waits [of 0 slow_pass_world init 1 _ _ _ ]
  have z: "getUpdatedBatchJob (Suc 0) slow_pass_world 0 init = Some (poll_pass slow_pass_world init)"
    by blast
  from getUpdatedBatchJob_waits [of 2 slow_pass_world init 1] c
  have "\<exists>res. getUpdatedBatchJob (Suc 2) slow_pass_world 1 init = Some res"
    by simp
  with c r z show ?thesis by simp
qed

text \<open>
  C6 as stated fails in two places. The sleep is not a fraction of the remaining budget:
  with \<open>maxWait = 1\<close> and passes of 0.3 seconds, the second sleep of half a second starts
  1.1 seconds after entry, when nothing is left of the budget. And with \<open>maxWait = 0\<close> the
  call does not always report "no update": it returns the completion event that its one
  pass found.
\<close>

theorem getUpdatedBatchJob_sleep_counterexample:
  "getUpdatedBatchJob 3 slow_pass_world 1 init =
     Some (init\<lparr>calls := [GetUpdatedLocalJob, Sleep (1 / 2), GetUpdatedLocalJob, Sleep (1 / 2)]\<rparr>,
           Inr None) \<and>
   1 - (now slow_pass_world [GetUpdatedLocalJob, Sleep (1 / 2), GetUpdatedLocalJob]
        - now slow_pass_world []) < 0 \<and>
   map_option snd (getUpdatedBatchJob 1 finished_world 0 one_job) =
     Some (Inr (Some \<lparr>jobID = 1, exitStatus = 255, wallTime = Some 2, exitReason = FINISHED\<rparr>))"
proof -
  have r: "getUpdatedBatchJob 3 slow_pass_world 1 init =
     Some (init\<lparr>calls := [GetUpdatedLocalJob, Sleep (1 / 2), GetUpdatedLocalJob, Sleep (1 / 2)]\<rparr>,
           Inr None)"
    by code_simp
  have t: "1 - (now slow_pass_world [GetUpdatedLocalJob, Sleep (1 / 2), GetUpdatedLocalJob]
        - now slow_pass_world []) < 0"
    by (simp add: slow_pass_world_def slept_def)
  have z: "map_option snd (getUpdatedBatchJob 1 finished_world 0 one_job) =
     Some (Inr (Some \<lparr>jobID = 1, exitStatus = 255, wallTime = Some 2, exitReason = FINISHED\<rparr>))"
    by code_simp
  from r t z show ?thesis by simp
qed

lemma wait_until_stopped_effect:
  "wait_until_stopped n ds W a s = Some (s1, r) \<Longrightarrow>
   \<exists>cs. calls s1 = calls s @ cs @ [DescribeJobs [a]] \<and> list_all describe_or_sleep cs \<and>
        (\<forall>d. Sleep d \<in> set cs \<longrightarrow> d = 2 \<or> d \<in> set ds) \<and>
        same_registry s s1 \<and> killed_job_aws_ids s1 = killed_job_aws_ids s \<and>
        (r = Inr () \<longrightarrow> stopped_seen W (calls s @ cs) a)"
proof (induction n arbitrary: ds s)
  case 0
  then show ?case by simp
next
  case (Suc n)
  let ?s1 = "called (DescribeJobs [a]) s"
  have base: ?case if "s1 = ?s1" "r = Inr () \<longrightarrow> stopped_seen W (calls s) a"
    using that by (intro exI [of _ "[]"]) simp
  have step: ?case
    if w: "wait_until_stopped n ds' W a (called (Sleep d) ?s1) = Some (s1, r)"
      and d: "d = 2 \<or> d \<in> set ds" and s: "set ds' \<subseteq> set ds" for d ds'
  proof -
    from Suc.IH [OF w] obtain cs where
      c: "calls s1 = calls s @ ([DescribeJobs [a], Sleep d] @ cs) @ [DescribeJobs [a]]"
      and l: "list_all describe_or_sleep cs"
      and sl: "\<forall>d. Sleep d \<in> set cs \<longrightarrow> d = 2 \<or> d \<in> set ds'"
      and g: "same_registry s s1" "killed_job_aws_ids s1 = killed_job_aws_ids s"
      and t: "r = Inr () \<longrightarrow> stopped_seen W (calls s @ [DescribeJobs [a], Sleep d] @ cs) a"
      by auto
    have l2: "list_all describe_or_sleep ([DescribeJobs [a], Sleep d] @ cs)"
      using l by (simp add: describe_or_sleep_def)
    have sl2: "\<forall>d'. Sleep d' \<in> set ([DescribeJobs [a], Sleep d] @ cs) \<longrightarrow> d' = 2 \<or> d' \<in> set ds"
      using sl d s by auto
    from c l2 sl2 g t show ?thesis by blast
  qed
  show ?case
  proof (cases "describe_jobs W (calls s) [a]")
    case (Inl e)
    show ?thesis
    proof (cases ds)
      case Nil
      with Inl Suc.prems show ?thesis by (intro base) auto
    next
      case (Cons d ds')
      show ?thesis
      proof (cases "e = BotoServerError")
        case True
        with Inl Cons Suc.prems
        have "wait_until_stopped n ds' W a (called (Sleep d) ?s1) = Some (s1, r)" by simp
        then show ?thesis using Cons by (intro step [of ds' d]) auto
      next
        case False
        with Inl Cons Suc.prems show ?thesis by (intro base) auto
      qed
    qed
  next
    case (Inr jobs)
    show ?thesis
    proof (cases jobs)
      case Nil
      with Inr Suc.prems show ?thesis by (intro base) (auto simp: stopped_seen_def)
    next
      case (Cons job rest)
      show ?thesis
      proof (cases "is_terminal job")
        case True
        with Inr Cons Suc.prems show ?thesis by (intro base) (auto simp: stopped_seen_def)
      next
        case False
        with Inr Cons Suc.prems
        have "wait_until_stopped n ds W a (called (Sleep 2) ?s1) = Some (s1, r)" by simp
        then show ?thesis by (intro step [of ds 2]) auto
      qed
    qed
  qed
qed



lemma kill_wait_effect:
  "kill_wait fuel W ids s = Some (s1, r) \<Longrightarrow>
   \<exists>cs. calls s1 = calls s @ cs \<and> list_all describe_or_sleep cs \<and>
        (\<forall>d. Sleep d \<in> set cs \<longrightarrow> d = 2 \<or> d \<in> set (retry_intervals W)) \<and>
        same_registry s s1 \<and> killed_job_aws_ids s1 = killed_job_aws_ids s \<and>
        (r = Inr () \<longrightarrow>
           (\<forall>b\<in>set ids. \<forall>a. map_of (bs_id_to_aws_id s) b = Some a \<longrightarrow>
              DescribeJobs [a] \<in> set cs \<and> (\<exists>h t. cs = h @ t \<and> stopped_seen W (calls s @ h) a)))"
proof (induction ids arbitrary: s)
  case Nil
  then show ?case by auto
next
  case (Cons b ids)
  show ?case
  proof (cases "map_of (bs_id_to_aws_id s) b")
    case None
    with Cons.prems have "kill_wait fuel W ids s = Some (s1, r)" by simp
    from Cons.IH [OF this] None show ?thesis by auto
  next
    case (Some a)
    from Some Cons.prems obtain s2 r2 where
      w: "wait_until_stopped fuel (retry_intervals W) W a s = Some (s2, r2)"
      by (auto split: option.splits)
    from wait_until_stopped_effect [OF w] obtain cs where
      c: "calls s2 = calls s @ cs @ [DescribeJobs [a]]" and l: "list_all describe_or_sleep cs"
      and sl: "\<forall>d. Sleep d \<in> set cs \<longrightarrow> d = 2 \<or> d \<in> set (retry_intervals W)"
      and g: "same_registry s s2" and k: "killed_job_aws_ids s2 = killed_job_aws_ids s"
      and t: "r2 = Inr () \<longrightarrow> stopped_seen W (calls s @ cs) a"
      by blast
    have l2: "list_all describe_or_sleep (cs @ [DescribeJobs [a]])"
      using l by (simp add: describe_or_sleep_def)
    show ?thesis
    proof (cases r2)
      case (Inl e)
      with Some w Cons.prems have "s1 = s2" "r = Inl e" by auto
      with c l2 sl g k show ?thesis
        by (intro exI [of _ "cs @ [DescribeJobs [a]]"]) auto
    next
      case (Inr u)
      with Some w Cons.prems have "kill_wait fuel W ids s2 = Some (s1, r)" by simp
      from Cons.IH [OF this] obtain cs' where
        c': "calls s1 = calls s2 @ cs'" and l': "list_all describe_or_sleep cs'"
        and sl': "\<forall>d. Sleep d \<in> set cs' \<longrightarrow> d = 2 \<or> d \<in> set (retry_intervals W)"
        and g': "same_registry s2 s1" and k': "killed_job_aws_ids s1 = killed_job_aws_ids s2"
        and t': "r = Inr () \<longrightarrow>
           (\<forall>b\<in>set ids. \<forall>a. map_of (bs_id_to_aws_id s2) b = Some a \<longrightarrow>
              DescribeJobs [a] \<in> set cs' \<and> (\<exists>h t. cs' = h @ t \<and> stopped_seen W (calls s2 @ h) a))"
        by blast
      let ?cs = "(cs @ [DescribeJobs [a]]) @ cs'"
      have 1: "calls s1 = calls s @ ?cs" using c c' by simp
      have 2: "list_all describe_or_sleep ?cs" using l2 l' by simp
      have 3: "\<forall>d. Sleep d \<in> set ?cs \<longrightarrow> d = 2 \<or> d \<in> set (retry_intervals W)"
        using sl sl' by auto
      have 4: "same_registry s s1" using g g' by (rule same_registry_trans)
      have 5: "killed_job_aws_ids s1 = killed_job_aws_ids s" using k k' by simp
      have 6: "DescribeJobs [a'] \<in> set ?cs \<and> (\<exists>h t. ?cs = h @ t \<and> stopped_seen W (calls s @ h) a')"
        if r: "r = Inr ()" and b': "b' \<in> set (b # ids)" and m: "map_of (bs_id_to_aws_id s) b' = Some a'"
        for b' a'
      proof (cases "b' = b")
        case True
        with m Some have "a' = a" by simp
        moreover from t Inr have "stopped_seen W (calls s @ cs) a" by simp
        moreover have "?cs = cs @ ([DescribeJobs [a]] @ cs')" by simp
        ultimately have "\<exists>h t. ?cs = h @ t \<and> stopped_seen W (calls s @ h) a'" by blast
        with \<open>a' = a\<close> show ?thesis by simp
      next
        case False
        with b' have "b' \<in> set ids" by simp
        moreover from g m have "map_of (bs_id_to_aws_id s2) b' = Some a'"
          by (simp add: same_registry_def)
        ultimately obtain h t where d: "DescribeJobs [a'] \<in> set cs'" and h: "cs' = h @ t"
          and st: "stopped_seen W (calls s2 @ h) a'"
          using t' r by blast
        from h have "?cs = (cs @ [DescribeJobs [a]] @ h) @ t" by simp
        moreover from st c have "stopped_seen W (calls s @ (cs @ [DescribeJobs [a]] @ h)) a'" by simp
        ultimately have "\<exists>h t. ?cs = h @ t \<and> stopped_seen W (calls s @ h) a'" by blast
        with d show ?thesis by simp
      qed
      from 1 2 3 4 5 6 show ?thesis by blast
    qed
  qed
qed

lemma kill_terminate_effect:
  "kill_terminate W ids s = (s1, r) \<Longrightarrow>
   \<exists>cs. calls s1 = calls s @ cs \<and> list_all cancel_or_sleep cs \<and> same_registry s s1 \<and>
        killed_job_aws_ids s \<subseteq> killed_job_aws_ids s1 \<and>
        (r = Inr () \<longrightarrow>
           (\<forall>b\<in>set ids. \<forall>a. map_of (bs_id_to_aws_id s) b = Some a \<longrightarrow>
              TerminateJob a \<in> set cs \<and> a \<in> killed_job_aws_ids s1))"
proof (induction ids arbitrary: s)
  case Nil
  then show ?case by auto
next
  case (Cons b ids)
  show ?case
  proof (cases "map_of (bs_id_to_aws_id s) b")
    case None
    with Cons.prems have "kill_terminate W ids s = (s1, r)" by simp
    from Cons.IH [OF this] None show ?thesis by auto
  next
    case (Some a)
    obtain s2 r2 where t: "try_terminate W a s = (s2, r2)" by (cases "try_terminate W a s")
    from try_terminate_effect [OF t] obtain cs where
      c: "calls s2 = calls s @ cs @ [TerminateJob a]" and l: "list_all cancel_or_sleep cs"
      and g: "same_registry s s2" and k: "killed_job_aws_ids s2 = insert a (killed_job_aws_ids s)"
      by blast
    have l2: "list_all cancel_or_sleep (cs @ [TerminateJob a])"
      using l by (simp add: cancel_or_sleep_def)
    show ?thesis
    proof (cases r2)
      case (Inl e)
      with Some t Cons.prems have "s1 = s2" "r = Inl e" by auto
      with c l2 g k show ?thesis
        by (intro exI [of _ "cs @ [TerminateJob a]"]) auto
    next
      case (Inr u)
      with Some t Cons.prems have "kill_terminate W ids s2 = (s1, r)" by simp
      from Cons.IH [OF this] obtain cs' where
        c': "calls s1 = calls s2 @ cs'" and l': "list_all cancel_or_sleep cs'"
        and g': "same_registry s2 s1" and k': "killed_job_aws_ids s2 \<subseteq> killed_job_aws_ids s1"
        and t': "r = Inr () \<longrightarrow>
           (\<forall>b\<in>set ids. \<forall>a. map_of (bs_id_to_aws_id s2) b = Some a \<longrightarrow>
              TerminateJob a \<in> set cs' \<and> a \<in> killed_job_aws_ids s1)"
        by blast
      let ?cs = "(cs @ [TerminateJob a]) @ cs'"
      have 1: "calls s1 = calls s @ ?cs" using c c' by simp
      have 2: "list_all cancel_or_sleep ?cs" using l2 l' by simp
      have 3: "same_registry s s1" using g g' by (rule same_registry_trans)
      have 4: "killed_job_aws_ids s \<subseteq> killed_job_aws_ids s1" using k k' by auto
      have 5: "TerminateJob a' \<in> set ?cs \<and> a' \<in> killed_job_aws_ids s1"
        if r: "r = Inr ()" and b': "b' \<in> set (b # ids)" and m: "map_of (bs_id_to_aws_id s) b' = Some a'"
        for b' a'
      proof (cases "b' = b")
        case True
        with m Some have "a' = a" by simp
        with k k' show ?thesis by auto
      next
        case False
        with b' have "b' \<in> set ids" by simp
        moreover from g m have "map_of (bs_id_to_aws_id s2) b' = Some a'"
          by (simp add: same_registry_def)
        ultimately show ?thesis using t' r by auto
      qed
      from 1 2 3 4 5 show ?thesis by blast
    qed
  qed
qed


lemma registry_inv_lookup:
  "registry_inv s \<Longrightarrow>
   (map_of (aws_id_to_bs_id s) a = Some b) = (map_of (bs_id_to_aws_id s) b = Some a)"
proof -
  assume i: "registry_inv s"
  then have "(map_of (aws_id_to_bs_id s) a = Some b) = ((a, b) \<in> set (aws_id_to_bs_id s))"
    by (simp add: registry_inv_def)
  also from i have "\<dots> = ((b, a) \<in> set (bs_id_to_aws_id s))"
    by (auto simp: registry_inv_def)
  also from i have "\<dots> = (map_of (bs_id_to_aws_id s) b = Some a)"
    by (simp add: registry_inv_def)
  finally show ?thesis .
qed







subsection \<open>The registry\<close>

lemma set_delete: "set (AList.delete k al) = {p \<in> set al. fst p \<noteq> k}"
  by (auto simp: AList.delete_eq)

lemma update_fresh: "k \<notin> fst ` set al \<Longrightarrow> AList.update k v al = al @ [(k, v)]"
  by (induction al) auto

lemma dict_del_present:
  "(k, v) \<in> set d \<Longrightarrow> dict_del d k = Inr (AList.delete k d)"
  by (cases "map_of d k") (auto simp: dict_del_def map_of_eq_None_iff image_iff)

lemma dict_del_absent: "k \<notin> fst ` set d \<Longrightarrow> dict_del d k = Inl KeyError"
  using map_of_eq_None_iff [of d k] by (simp add: dict_del_def)

lemma registry_inv_swap:
  "registry_inv s \<Longrightarrow> ((a, b) \<in> set (aws_id_to_bs_id s)) = ((b, a) \<in> set (bs_id_to_aws_id s))"
  by (auto simp: registry_inv_def)

lemma registry_inv_keys:
  "registry_inv s \<Longrightarrow> fst ` set (aws_id_to_bs_id s) = snd ` set (bs_id_to_aws_id s)"
  by (force simp: registry_inv_def)

lemma registry_inv_forget:
  assumes i: "registry_inv s" and p: "(a, b) \<in> set (aws_id_to_bs_id s)"
  shows "registry_inv (s\<lparr>aws_id_to_bs_id := AList.delete a (aws_id_to_bs_id s),
                          bs_id_to_aws_id := AList.delete b (bs_id_to_aws_id s),
                          killed_job_aws_ids := K\<rparr>)"
proof -
  from i have da: "distinct (map fst (aws_id_to_bs_id s))" and db: "distinct (map fst (bs_id_to_aws_id s))"
    and sw: "set (aws_id_to_bs_id s) = (\<lambda>(b, a). (a, b)) ` set (bs_id_to_aws_id s)"
    by (simp_all add: registry_inv_def)
  from p sw have q: "(b, a) \<in> set (bs_id_to_aws_id s)" by auto
  have ua: "a' = a \<longleftrightarrow> b' = b" if "(a', b') \<in> set (aws_id_to_bs_id s)" for a' b'
  proof
    assume "a' = a"
    with that p da show "b' = b" by (metis eq_key_imp_eq_value)
  next
    assume "b' = b"
    moreover from that sw have "(b', a') \<in> set (bs_id_to_aws_id s)" by auto
    ultimately show "a' = a" using q db by (metis eq_key_imp_eq_value)
  qed
  have "{p \<in> set (aws_id_to_bs_id s). fst p \<noteq> a} =
        (\<lambda>(b, a). (a, b)) ` {p \<in> set (bs_id_to_aws_id s). fst p \<noteq> b}"
  proof (intro set_eqI iffI)
    fix x assume "x \<in> {p \<in> set (aws_id_to_bs_id s). fst p \<noteq> a}"
    then obtain a' b' where x: "x = (a', b')" "(a', b') \<in> set (aws_id_to_bs_id s)" "a' \<noteq> a"
      by (cases x) auto
    with ua have "b' \<noteq> b" by blast
    moreover from x sw have "(b', a') \<in> set (bs_id_to_aws_id s)" by auto
    ultimately show "x \<in> (\<lambda>(b, a). (a, b)) ` {p \<in> set (bs_id_to_aws_id s). fst p \<noteq> b}"
      using x by force
  next
    fix x assume "x \<in> (\<lambda>(b, a). (a, b)) ` {p \<in> set (bs_id_to_aws_id s). fst p \<noteq> b}"
    then obtain a' b' where x: "x = (a', b')" "(b', a') \<in> set (bs_id_to_aws_id s)" "b' \<noteq> b"
      by auto
    with sw have m: "(a', b') \<in> set (aws_id_to_bs_id s)" by force
    with ua x have "a' \<noteq> a" by blast
    with m x show "x \<in> {p \<in> set (aws_id_to_bs_id s). fst p \<noteq> a}" by simp
  qed
  with da db show ?thesis
    by (simp add: registry_inv_def set_delete distinct_delete)
qed

lemma drop_acknowledged_effect:
  "registry_inv s \<Longrightarrow>
   \<forall>p\<in>set ack. p \<in> set (aws_id_to_bs_id s) \<or> fst p \<notin> fst ` set (aws_id_to_bs_id s) \<Longrightarrow>
   drop_acknowledged s ack = (s', r) \<Longrightarrow>
   registry_inv s' \<and> set (aws_id_to_bs_id s') \<subseteq> set (aws_id_to_bs_id s) \<and>
   killed_job_aws_ids s' \<subseteq> killed_job_aws_ids s \<and>
   (\<forall>a\<in>fst ` set (aws_id_to_bs_id s'). a \<in> killed_job_aws_ids s \<longrightarrow> a \<in> killed_job_aws_ids s') \<and>
   (\<forall>p\<in>set (aws_id_to_bs_id s) - set (aws_id_to_bs_id s'). p \<in> set ack) \<and>
   (r = None \<longrightarrow> (\<forall>p\<in>set ack. fst p \<notin> fst ` set (aws_id_to_bs_id s') \<and>
                                 fst p \<notin> killed_job_aws_ids s'))"
proof (induction ack arbitrary: s)
  case Nil
  then show ?case by auto
next
  case (Cons p ack)
  obtain a b where p: "p = (a, b)" by (cases p)
  show ?case
  proof (cases "a \<in> fst ` set (aws_id_to_bs_id s)")
    case False
    with p Cons.prems(3) have "s' = s" "r = Some KeyError"
      by (auto simp: dict_del_absent)
    with Cons.prems(1) show ?thesis by auto
  next
    case True
    with p Cons.prems(2) have m: "(a, b) \<in> set (aws_id_to_bs_id s)" by auto
    with Cons.prems(1) have m': "(b, a) \<in> set (bs_id_to_aws_id s)" by (simp add: registry_inv_swap)
    let ?s2 = "s\<lparr>aws_id_to_bs_id := AList.delete a (aws_id_to_bs_id s),
                  bs_id_to_aws_id := AList.delete b (bs_id_to_aws_id s),
                  killed_job_aws_ids := killed_job_aws_ids s - {a}\<rparr>"
    from p Cons.prems(3) have d: "drop_acknowledged ?s2 ack = (s', r)"
      by (simp add: dict_del_present [OF m] dict_del_present [OF m'])
    have i2: "registry_inv ?s2" using Cons.prems(1) m by (rule registry_inv_forget)
    have h2: "\<forall>p\<in>set ack. p \<in> set (aws_id_to_bs_id ?s2) \<or> fst p \<notin> fst ` set (aws_id_to_bs_id ?s2)"
      using Cons.prems(2) by (auto simp: set_delete)
    from Cons.IH [OF i2 h2 d] have
      1: "registry_inv s'" and 2: "set (aws_id_to_bs_id s') \<subseteq> set (aws_id_to_bs_id ?s2)"
      and 3: "killed_job_aws_ids s' \<subseteq> killed_job_aws_ids ?s2"
      and 4: "\<forall>a\<in>fst ` set (aws_id_to_bs_id s'). a \<in> killed_job_aws_ids ?s2 \<longrightarrow> a \<in> killed_job_aws_ids s'"
      and 5: "\<forall>p\<in>set (aws_id_to_bs_id ?s2) - set (aws_id_to_bs_id s'). p \<in> set ack"
      and 6: "r = None \<longrightarrow> (\<forall>p\<in>set ack. fst p \<notin> fst ` set (aws_id_to_bs_id s') \<and>
                                 fst p \<notin> killed_job_aws_ids s')"
      by blast+
    from 2 have sub2: "set (aws_id_to_bs_id s') \<subseteq> {p \<in> set (aws_id_to_bs_id s). fst p \<noteq> a}"
      by (simp add: set_delete)
    from Cons.prems(1) have da: "distinct (map fst (aws_id_to_bs_id s))"
      by (simp add: registry_inv_def)
    have a1: "set (aws_id_to_bs_id s') \<subseteq> set (aws_id_to_bs_id s)" using sub2 by auto
    have a2: "killed_job_aws_ids s' \<subseteq> killed_job_aws_ids s" using 3 by auto
    have a3: "\<forall>x\<in>fst ` set (aws_id_to_bs_id s'). x \<in> killed_job_aws_ids s \<longrightarrow> x \<in> killed_job_aws_ids s'"
    proof (intro ballI impI)
      fix x assume x: "x \<in> fst ` set (aws_id_to_bs_id s')" "x \<in> killed_job_aws_ids s"
      with sub2 have "x \<noteq> a" by auto
      with x have "x \<in> killed_job_aws_ids ?s2" by simp
      with x(1) 4 show "x \<in> killed_job_aws_ids s'" by blast
    qed
    have a4: "\<forall>q\<in>set (aws_id_to_bs_id s) - set (aws_id_to_bs_id s'). q \<in> set (p # ack)"
    proof
      fix q assume q: "q \<in> set (aws_id_to_bs_id s) - set (aws_id_to_bs_id s')"
      show "q \<in> set (p # ack)"
      proof (cases "fst q = a")
        case True
        with q have "(a, snd q) \<in> set (aws_id_to_bs_id s)" by (cases q) auto
        with m da have "snd q = b" by (metis eq_key_imp_eq_value)
        with True have "q = (a, b)" by (cases q) simp
        with p show ?thesis by simp
      next
        case False
        with q have "q \<in> set (aws_id_to_bs_id ?s2) - set (aws_id_to_bs_id s')"
          by (simp add: set_delete)
        with 5 show ?thesis by simp
      qed
    qed
    have a5: "r = None \<longrightarrow> (\<forall>q\<in>set (p # ack). fst q \<notin> fst ` set (aws_id_to_bs_id s') \<and>
                                 fst q \<notin> killed_job_aws_ids s')"
    proof (intro impI ballI)
      fix q assume r: "r = None" and q: "q \<in> set (p # ack)"
      show "fst q \<notin> fst ` set (aws_id_to_bs_id s') \<and> fst q \<notin> killed_job_aws_ids s'"
      proof (cases "q = p")
        case True
        with p sub2 3 show ?thesis by auto
      next
        case False
        with q 6 r show ?thesis by simp
      qed
    qed
    from 1 a1 a2 a3 a4 a5 show ?thesis by blast
  qed
qed

lemma reported_terminal_later:
  "reported_terminal W (cs @ cs1) a \<Longrightarrow> reported_terminal W cs a"
  unfolding reported_terminal_def by (metis append.assoc)

lemma poll_details_ack:
  "poll_details W s jobs ack = (ack1, ex) \<Longrightarrow>
   (\<forall>p\<in>set ack1. p \<in> set ack \<or>
       (map_of (aws_id_to_bs_id s) (fst p) = Some (snd p) \<and>
        (\<exists>jd\<in>set jobs. is_terminal jd \<and> jobId jd = fst p))) \<and>
   (\<forall>ev. ex = Return ev \<longrightarrow>
       (\<exists>a. (a, jobID ev) \<in> set ack1 \<and> map_of (aws_id_to_bs_id s) a = Some (jobID ev) \<and>
            a \<notin> killed_job_aws_ids s)) \<and>
   (ex = Finish \<longrightarrow> set ack \<subseteq> set ack1 \<and>
       (\<forall>jd\<in>set jobs. is_terminal jd \<longrightarrow> jobId jd \<in> fst ` set ack1))"
proof (induction jobs arbitrary: ack)
  case Nil
  then show ?case by auto
next
  case (Cons jd rest)
  show ?case
  proof (cases "is_terminal jd")
    case False
    with Cons.prems have "poll_details W s rest ack = (ack1, ex)" by simp
    from Cons.IH [OF this] False show ?thesis by auto
  next
    case True
    show ?thesis
    proof (cases "map_of (aws_id_to_bs_id s) (jobId jd)")
      case None
      with True Cons.prems show ?thesis by (auto simp: dict_get_def)
    next
      case (Some b)
      show ?thesis
      proof (cases "jobId jd \<in> killed_job_aws_ids s")
        case k: True
        with True Some Cons.prems
        have "poll_details W s rest (ack @ [(jobId jd, b)]) = (ack1, ex)"
          by (simp add: dict_get_def)
        from Cons.IH [OF this] True Some show ?thesis
          by (auto simp: image_iff) force+
      next
        case k: False
        from True Some k Cons.prems
        have a: "ack1 = ack @ [(jobId jd, b)]"
          and e: "\<exists>ev. ex = Return ev \<and> jobID ev = b"
          by (auto simp: dict_get_def [of "aws_id_to_bs_id s"] exit_reason_terminal)
        with True Some k show ?thesis by auto
      qed
    qed
  qed
qed

lemma poll_batches_ack:
  "poll_batches W s bs ack = (s1, ack1, ex) \<Longrightarrow>
   (\<forall>p\<in>set ack1. p \<in> set ack \<or>
       (map_of (aws_id_to_bs_id s) (fst p) = Some (snd p) \<and> reported_terminal W (calls s) (fst p))) \<and>
   (\<forall>ev. ex = Return ev \<longrightarrow>
       (\<exists>a. (a, jobID ev) \<in> set ack1 \<and> map_of (aws_id_to_bs_id s) a = Some (jobID ev) \<and>
            a \<notin> killed_job_aws_ids s)) \<and>
   (ex = Finish \<longrightarrow> set ack \<subseteq> set ack1 \<and>
       (\<forall>jd\<in>set (yielded W (calls s) bs). is_terminal jd \<longrightarrow> jobId jd \<in> fst ` set ack1)) \<and>
   same_registry s s1 \<and> killed_job_aws_ids s1 = killed_job_aws_ids s"
proof (induction bs arbitrary: s ack)
  case Nil
  then show ?case by auto
next
  case (Cons b bs)
  let ?s = "called (DescribeJobs b) s"
  show ?case
  proof (cases "describe_jobs W (calls s) b")
    case (Inl e)
    with Cons.prems show ?thesis by auto
  next
    case (Inr jobs)
    obtain a2 ex2 where pd: "poll_details W ?s jobs ack = (a2, ex2)"
      by (cases "poll_details W ?s jobs ack")
    have rep: "reported_terminal W (calls s) (jobId jd)" if "jd \<in> set jobs" "is_terminal jd" for jd
      unfolding reported_terminal_def using Inr that
      by (intro exI [of _ "[]"] exI [of _ b] exI [of _ jobs] exI [of _ jd]) simp
    from poll_details_ack [OF pd] have
      r1: "\<forall>p\<in>set a2. p \<in> set ack \<or>
        (map_of (aws_id_to_bs_id s) (fst p) = Some (snd p) \<and>
        (\<exists>jd\<in>set jobs. is_terminal jd \<and> jobId jd = fst p))"
      and d2: "\<forall>ev. ex2 = Return ev \<longrightarrow>
       (\<exists>a. (a, jobID ev) \<in> set a2 \<and> map_of (aws_id_to_bs_id s) a = Some (jobID ev) \<and>
            a \<notin> killed_job_aws_ids s)"
      and d3: "ex2 = Finish \<longrightarrow> set ack \<subseteq> set a2 \<and>
       (\<forall>jd\<in>set jobs. is_terminal jd \<longrightarrow> jobId jd \<in> fst ` set a2)"
      by simp_all
    have d1: "\<forall>p\<in>set a2. p \<in> set ack \<or>
        (map_of (aws_id_to_bs_id s) (fst p) = Some (snd p) \<and> reported_terminal W (calls s) (fst p))"
    proof
      fix p assume "p \<in> set a2"
      with r1 consider "p \<in> set ack"
        | jd where "map_of (aws_id_to_bs_id s) (fst p) = Some (snd p)" "jd \<in> set jobs"
            "is_terminal jd" "jobId jd = fst p"
        by blast
      then show "p \<in> set ack \<or>
        (map_of (aws_id_to_bs_id s) (fst p) = Some (snd p) \<and> reported_terminal W (calls s) (fst p))"
      proof cases
        case 1
        then show ?thesis by simp
      next
        case 2
        with rep [OF 2(2,3)] show ?thesis by simp
      qed
    qed
    show ?thesis
    proof (cases "ex2 = Finish")
      case False
      with Inr pd Cons.prems have "s1 = ?s" "ack1 = a2" "ex = ex2"
        by (cases ex2; simp)+
      with d1 d2 False show ?thesis by simp
    next
      case True
      with Inr pd Cons.prems have "poll_batches W ?s bs a2 = (s1, ack1, ex)" by simp
      from Cons.IH [OF this] have
        i1: "\<forall>p\<in>set ack1. p \<in> set a2 \<or>
          (map_of (aws_id_to_bs_id s) (fst p) = Some (snd p) \<and>
           reported_terminal W (calls s @ [DescribeJobs b]) (fst p))"
        and i2: "\<forall>ev. ex = Return ev \<longrightarrow>
         (\<exists>a. (a, jobID ev) \<in> set ack1 \<and> map_of (aws_id_to_bs_id s) a = Some (jobID ev) \<and>
              a \<notin> killed_job_aws_ids s)"
        and i3: "ex = Finish \<longrightarrow> set a2 \<subseteq> set ack1 \<and>
         (\<forall>jd\<in>set (yielded W (calls s @ [DescribeJobs b]) bs). is_terminal jd \<longrightarrow>
             jobId jd \<in> fst ` set ack1)"
        and i4: "same_registry s s1" "killed_job_aws_ids s1 = killed_job_aws_ids s"
        by simp_all
      have 1: "\<forall>p\<in>set ack1. p \<in> set ack \<or>
          (map_of (aws_id_to_bs_id s) (fst p) = Some (snd p) \<and> reported_terminal W (calls s) (fst p))"
        using i1 d1 reported_terminal_later by blast
      have 3: "ex = Finish \<longrightarrow> set ack \<subseteq> set ack1 \<and>
         (\<forall>jd\<in>set (yielded W (calls s) (b # bs)). is_terminal jd \<longrightarrow> jobId jd \<in> fst ` set ack1)"
      proof
        assume f: "ex = Finish"
        with i3 d3 True have "set ack \<subseteq> set ack1" by blast
        moreover have "jobId jd \<in> fst ` set ack1"
          if "jd \<in> set (yielded W (calls s) (b # bs))" "is_terminal jd" for jd
        proof -
          from that(1) Inr consider "jd \<in> set jobs"
            | "jd \<in> set (yielded W (calls s @ [DescribeJobs b]) bs)" by auto
          then show ?thesis
          proof cases
            case 1
            with d3 True that(2) have "jobId jd \<in> fst ` set a2" by blast
            with i3 f show ?thesis by blast
          next
            case 2
            with i3 f that(2) show ?thesis by blast
          qed
        qed
        ultimately show "set ack \<subseteq> set ack1 \<and>
         (\<forall>jd\<in>set (yielded W (calls s) (b # bs)). is_terminal jd \<longrightarrow> jobId jd \<in> fst ` set ack1)"
          by blast
      qed
      from 1 i2 3 i4 show ?thesis by blast
    qed
  qed
qed

lemma registry_inv_called [simp]: "registry_inv (called c s) = registry_inv s"
  by (simp add: registry_inv_def)

lemma registry_inv_same: "same_registry s s1 \<Longrightarrow> registry_inv s1 = registry_inv s"
  by (simp add: registry_inv_def same_registry_def)

lemma poll_pass_effect:
  assumes i: "registry_inv s" and p: "poll_pass W s = (s', r)"
  shows "registry_inv s' \<and> set (aws_id_to_bs_id s') \<subseteq> set (aws_id_to_bs_id s) \<and>
     killed_job_aws_ids s' \<subseteq> killed_job_aws_ids s \<and> job_definition s' = job_definition s \<and>
     (\<forall>a\<in>fst ` set (aws_id_to_bs_id s'). a \<in> killed_job_aws_ids s \<longrightarrow> a \<in> killed_job_aws_ids s') \<and>
     (\<forall>p\<in>set (aws_id_to_bs_id s) - set (aws_id_to_bs_id s'). reported_terminal W (calls s) (fst p)) \<and>
     (getUpdatedLocalJob W (calls s) = None \<longrightarrow>
        (\<forall>ev. r = Inr (Some ev) \<longrightarrow>
           (\<exists>a. (a, jobID ev) \<in> set (aws_id_to_bs_id s) \<and> a \<notin> killed_job_aws_ids s \<and>
                a \<notin> fst ` set (aws_id_to_bs_id s'))) \<and>
        (r = Inr None \<longrightarrow>
           (\<forall>jd\<in>set (yielded W (calls s @ [GetUpdatedLocalJob]) (batches (map fst (aws_id_to_bs_id s)))).
               is_terminal jd \<longrightarrow>
               jobId jd \<notin> fst ` set (aws_id_to_bs_id s') \<and> jobId jd \<notin> killed_job_aws_ids s')))"
proof (cases "getUpdatedLocalJob W (calls s)")
  case (Some ev)
  with p have "s' = called GetUpdatedLocalJob s" by (auto simp: poll_pass_def)
  with i Some show ?thesis by simp
next
  case None
  let ?s0 = "called GetUpdatedLocalJob s"
  let ?bs = "batches (map fst (aws_id_to_bs_id s))"
  obtain s1 ack ex where pb: "poll_batches W ?s0 ?bs [] = (s1, ack, ex)"
    by (cases "poll_batches W ?s0 ?bs []")
  obtain s2 e where da: "drop_acknowledged s1 ack = (s2, e)"
    by (cases "drop_acknowledged s1 ack")
  from p None pb da have s': "s' = s2"
    and r: "r = (case e of Some x \<Rightarrow> Inl x
                | None \<Rightarrow> (case ex of Return ev \<Rightarrow> Inr (Some ev) | Raise x \<Rightarrow> Inl x | Finish \<Rightarrow> Inr None))"
    by (auto simp: poll_pass_def split: option.splits loop_exit.splits)
  from poll_batches_ack [OF pb] have
    a1: "\<forall>p\<in>set ack. map_of (aws_id_to_bs_id s) (fst p) = Some (snd p) \<and>
            reported_terminal W (calls s @ [GetUpdatedLocalJob]) (fst p)"
    and a2: "\<forall>ev. ex = Return ev \<longrightarrow>
       (\<exists>a. (a, jobID ev) \<in> set ack \<and> map_of (aws_id_to_bs_id s) a = Some (jobID ev) \<and>
            a \<notin> killed_job_aws_ids s)"
    and a3: "ex = Finish \<longrightarrow>
       (\<forall>jd\<in>set (yielded W (calls s @ [GetUpdatedLocalJob]) ?bs). is_terminal jd \<longrightarrow>
           jobId jd \<in> fst ` set ack)"
    and a4: "same_registry s s1" "killed_job_aws_ids s1 = killed_job_aws_ids s"
    by simp_all
  from a4 i have i1: "registry_inv s1" by (simp add: registry_inv_same)
  from a4 have e1: "aws_id_to_bs_id s1 = aws_id_to_bs_id s" "job_definition s1 = job_definition s"
    by (simp_all add: same_registry_def)
  have h: "\<forall>p\<in>set ack. p \<in> set (aws_id_to_bs_id s1) \<or> fst p \<notin> fst ` set (aws_id_to_bs_id s1)"
  proof
    fix p assume "p \<in> set ack"
    with a1 have "map_of (aws_id_to_bs_id s) (fst p) = Some (snd p)" by blast
    then have "(fst p, snd p) \<in> set (aws_id_to_bs_id s)" by (rule map_of_SomeD)
    with e1 show "p \<in> set (aws_id_to_bs_id s1) \<or> fst p \<notin> fst ` set (aws_id_to_bs_id s1)" by simp
  qed
  from drop_acknowledged_effect [OF i1 h da] have
    b1: "registry_inv s2" and b2: "set (aws_id_to_bs_id s2) \<subseteq> set (aws_id_to_bs_id s)"
    and b3: "killed_job_aws_ids s2 \<subseteq> killed_job_aws_ids s"
    and b4: "\<forall>a\<in>fst ` set (aws_id_to_bs_id s2). a \<in> killed_job_aws_ids s \<longrightarrow> a \<in> killed_job_aws_ids s2"
    and b5: "\<forall>p\<in>set (aws_id_to_bs_id s) - set (aws_id_to_bs_id s2). p \<in> set ack"
    and b6: "e = None \<longrightarrow> (\<forall>p\<in>set ack. fst p \<notin> fst ` set (aws_id_to_bs_id s2) \<and>
                                 fst p \<notin> killed_job_aws_ids s2)"
    unfolding e1 a4 by blast+
  from drop_acknowledged_calls [OF da] e1 have b7: "job_definition s2 = job_definition s" by simp
  have c5: "\<forall>p\<in>set (aws_id_to_bs_id s) - set (aws_id_to_bs_id s2). reported_terminal W (calls s) (fst p)"
    using b5 a1 reported_terminal_later by blast
  have c6: "\<exists>a. (a, jobID ev) \<in> set (aws_id_to_bs_id s) \<and> a \<notin> killed_job_aws_ids s \<and>
                a \<notin> fst ` set (aws_id_to_bs_id s2)" if "r = Inr (Some ev)" for ev
  proof -
    from that r have e: "e = None" and "ex = Return ev"
      by (auto split: option.splits loop_exit.splits)
    with a2 obtain a where a: "(a, jobID ev) \<in> set ack" "map_of (aws_id_to_bs_id s) a = Some (jobID ev)"
      "a \<notin> killed_job_aws_ids s" by blast
    from a(2) have "(a, jobID ev) \<in> set (aws_id_to_bs_id s)" by (rule map_of_SomeD)
    moreover from b6 e a(1) have "a \<notin> fst ` set (aws_id_to_bs_id s2)" by force
    ultimately show ?thesis using a(3) by blast
  qed
  have c7: "jobId jd \<notin> fst ` set (aws_id_to_bs_id s2) \<and> jobId jd \<notin> killed_job_aws_ids s2"
    if "r = Inr None" "jd \<in> set (yielded W (calls s @ [GetUpdatedLocalJob]) ?bs)" "is_terminal jd" for jd
  proof -
    from that(1) r have e: "e = None" and "ex = Finish"
      by (auto split: option.splits loop_exit.splits)
    with a3 that have "jobId jd \<in> fst ` set ack" by blast
    then obtain p where "p \<in> set ack" "fst p = jobId jd" by auto
    with b6 e show ?thesis by metis
  qed
  from b1 b2 b3 b4 b7 c5 c6 c7 show ?thesis unfolding s' by blast
qed

lemma cancelled_append [simp]: "cancelled (cs @ cs') = cancelled cs @ cancelled cs'"
  by (induction cs rule: cancelled.induct) simp_all

lemma new_calls_append: "calls s1 = calls s @ cs \<Longrightarrow> new_calls s s1 = cs"
  by (simp add: new_calls_def)

lemma cancelled_describe_or_sleep: "list_all describe_or_sleep cs \<Longrightarrow> cancelled cs = []"
  by (induction cs rule: cancelled.induct) (simp_all add: describe_or_sleep_def)

lemma cancelled_deregister_or_sleep: "list_all deregister_or_sleep cs \<Longrightarrow> cancelled cs = []"
  by (induction cs rule: cancelled.induct) (simp_all add: deregister_or_sleep_def)

lemma retry_try_terminate_cancelled:
  "retry ds (try_terminate_body W a) s = (s1, r) \<Longrightarrow>
   \<exists>cs. calls s1 = calls s @ cs \<and> set (cancelled cs) \<subseteq> {a}"
proof (induction ds arbitrary: s)
  case Nil
  then show ?case
    by (auto simp: try_terminate_body_def Let_def split: option.splits)
next
  case (Cons d ds)
  let ?s1 = "s\<lparr>killed_job_aws_ids := insert a (killed_job_aws_ids s)\<rparr>"
  show ?case
  proof (cases "terminate_job W (calls s) a = Some BotoServerError")
    case False
    with Cons.prems show ?thesis
      by (auto simp: try_terminate_body_def Let_def split: option.splits)
  next
    case True
    then have b: "try_terminate_body W a s = (called (TerminateJob a) ?s1, Inl BotoServerError)"
      by (simp add: try_terminate_body_def Let_def)
    with Cons.prems
    have "retry ds (try_terminate_body W a) (called (Sleep d) (called (TerminateJob a) ?s1)) = (s1, r)"
      by simp
    from Cons.IH [OF this] obtain cs where
      "calls s1 = calls s @ ([TerminateJob a, Sleep d] @ cs)" "set (cancelled cs) \<subseteq> {a}"
      by auto
    then show ?thesis
      by (intro exI [of _ "[TerminateJob a, Sleep d] @ cs"]) simp
  qed
qed

lemmas try_terminate_cancelled =
  retry_try_terminate_cancelled [of "retry_intervals W" W for W, folded try_terminate_def]

lemma kill_terminate_cancelled:
  "kill_terminate W ids s = (s1, r) \<Longrightarrow>
   \<exists>cs. calls s1 = calls s @ cs \<and>
        set (cancelled cs) \<subseteq> killed_job_aws_ids s1 \<inter> snd ` set (bs_id_to_aws_id s)"
proof (induction ids arbitrary: s)
  case Nil
  then show ?case by auto
next
  case (Cons b ids)
  show ?case
  proof (cases "map_of (bs_id_to_aws_id s) b")
    case None
    with Cons.prems have "kill_terminate W ids s = (s1, r)" by simp
    from Cons.IH [OF this] show ?thesis .
  next
    case (Some a)
    then have m: "a \<in> snd ` set (bs_id_to_aws_id s)"
      by (metis map_of_SomeD image_eqI snd_conv)
    obtain s2 r2 where t: "try_terminate W a s = (s2, r2)" by (cases "try_terminate W a s")
    from try_terminate_cancelled [OF t] obtain cs where
      c: "calls s2 = calls s @ cs" "set (cancelled cs) \<subseteq> {a}" by blast
    from try_terminate_effect [OF t] have
      g: "same_registry s s2" and k: "killed_job_aws_ids s2 = insert a (killed_job_aws_ids s)"
      by blast+
    show ?thesis
    proof (cases r2)
      case (Inl e)
      with Some t Cons.prems have "s1 = s2" by auto
      with c k m show ?thesis by (intro exI [of _ cs]) auto
    next
      case (Inr u)
      with Some t Cons.prems have kt: "kill_terminate W ids s2 = (s1, r)" by simp
      from Cons.IH [OF kt] obtain cs' where
        c': "calls s1 = calls s2 @ cs'"
        "set (cancelled cs') \<subseteq> killed_job_aws_ids s1 \<inter> snd ` set (bs_id_to_aws_id s2)"
        by blast
      from kill_terminate_effect [OF kt] have "killed_job_aws_ids s2 \<subseteq> killed_job_aws_ids s1"
        by blast
      with c c' k m g show ?thesis
        by (intro exI [of _ "cs @ cs'"]) (auto simp: same_registry_def)
    qed
  qed
qed

lemma terminate_all_cancelled:
  "terminate_all W as s = (s1, r) \<Longrightarrow>
   \<exists>cs. calls s1 = calls s @ cs \<and> set (cancelled cs) \<subseteq> killed_job_aws_ids s1 \<inter> set as"
proof (induction as arbitrary: s)
  case Nil
  then show ?case by auto
next
  case (Cons a as)
  obtain s2 r2 where t: "try_terminate W a s = (s2, r2)" by (cases "try_terminate W a s")
  from try_terminate_cancelled [OF t] obtain cs where
    c: "calls s2 = calls s @ cs" "set (cancelled cs) \<subseteq> {a}" by blast
  from try_terminate_effect [OF t] have
    k: "killed_job_aws_ids s2 = insert a (killed_job_aws_ids s)"
    by blast
  show ?case
  proof (cases r2)
    case (Inl e)
    with t Cons.prems have "s1 = s2" by auto
    with c k show ?thesis by (intro exI [of _ cs]) auto
  next
    case (Inr u)
    with t Cons.prems have ta: "terminate_all W as s2 = (s1, r)" by simp
    from Cons.IH [OF ta] obtain cs' where
      c': "calls s1 = calls s2 @ cs'" "set (cancelled cs') \<subseteq> killed_job_aws_ids s1 \<inter> set as"
      by blast
    from terminate_all_effect [OF ta] have "killed_job_aws_ids s2 \<subseteq> killed_job_aws_ids s1"
      by blast
    with c c' k show ?thesis
      by (intro exI [of _ "cs @ cs'"]) auto
  qed
qed

lemma killBatchJobs_effect:
  assumes "killBatchJobs fuel W ids s = Some (s1, r)"
  shows "same_registry s s1 \<and> killed_job_aws_ids s \<subseteq> killed_job_aws_ids s1 \<and>
         set (cancelled (new_calls s s1)) \<subseteq> killed_job_aws_ids s1 \<inter> snd ` set (bs_id_to_aws_id s)"
proof -
  let ?s0 = "called (KillLocalJobs ids) s"
  obtain sa ra where kt: "kill_terminate W ids ?s0 = (sa, ra)"
    by (cases "kill_terminate W ids ?s0")
  from kill_terminate_cancelled [OF kt] obtain cs where
    c: "calls sa = calls s @ KillLocalJobs ids # cs"
    "set (cancelled cs) \<subseteq> killed_job_aws_ids sa \<inter> snd ` set (bs_id_to_aws_id s)"
    by auto
  from kill_terminate_effect [OF kt] have
    g: "same_registry s sa" and k: "killed_job_aws_ids s \<subseteq> killed_job_aws_ids sa"
    by auto
  show ?thesis
  proof (cases ra)
    case (Inl e)
    with kt assms have "s1 = sa" by (auto simp: killBatchJobs_def)
    with c g k show ?thesis
      by (simp add: new_calls_append [of sa s "KillLocalJobs ids # cs"])
  next
    case (Inr u)
    with kt assms have kw: "kill_wait fuel W ids sa = Some (s1, r)" by (simp add: killBatchJobs_def)
    from kill_wait_effect [OF kw] obtain cs' where
      c': "calls s1 = calls sa @ cs'" and l: "list_all describe_or_sleep cs'"
      and g': "same_registry sa s1" and k': "killed_job_aws_ids s1 = killed_job_aws_ids sa"
      by blast
    from c c' have n: "new_calls s s1 = KillLocalJobs ids # cs @ cs'"
      by (simp add: new_calls_def)
    from g g' have "same_registry s s1" by (rule same_registry_trans)
    with c k k' n cancelled_describe_or_sleep [OF l] show ?thesis by simp
  qed
qed

lemma shutdown_effect:
  assumes "shutdown W s = (s1, r)"
  shows "bs_id_to_aws_id s1 = bs_id_to_aws_id s \<and> aws_id_to_bs_id s1 = aws_id_to_bs_id s \<and>
         killed_job_aws_ids s \<subseteq> killed_job_aws_ids s1 \<and>
         set (cancelled (new_calls s s1)) \<subseteq> killed_job_aws_ids s1 \<inter> fst ` set (aws_id_to_bs_id s)"
proof -
  let ?as = "map fst (aws_id_to_bs_id s)"
  obtain sa ra where t: "terminate_all W ?as (called ShutdownLocal s) = (sa, ra)"
    by (cases "terminate_all W ?as (called ShutdownLocal s)")
  from terminate_all_cancelled [OF t] obtain cs where
    c: "calls sa = calls s @ ShutdownLocal # cs"
    "set (cancelled cs) \<subseteq> killed_job_aws_ids sa \<inter> fst ` set (aws_id_to_bs_id s)"
    by auto
  from terminate_all_effect [OF t] have
    g: "same_registry s sa" and k: "killed_job_aws_ids s \<subseteq> killed_job_aws_ids sa"
    by auto
  show ?thesis
  proof (cases ra)
    case (Inl e)
    with t assms have "s1 = sa" by (auto simp: shutdown_def)
    with c g k show ?thesis
      by (simp add: new_calls_append [of sa s "ShutdownLocal # cs"] same_registry_def)
  next
    case (Inr u)
    with t assms have d: "destroy_job_definition W sa = (s1, r)" by (simp add: shutdown_def)
    from destroy_job_definition_effect [OF d] obtain cs' where
      c': "calls s1 = calls sa @ cs'" and l: "list_all deregister_or_sleep cs'"
      and g': "bs_id_to_aws_id s1 = bs_id_to_aws_id sa" "aws_id_to_bs_id s1 = aws_id_to_bs_id sa"
        "killed_job_aws_ids s1 = killed_job_aws_ids sa"
      by blast
    from c c' have n: "new_calls s s1 = ShutdownLocal # cs @ cs'"
      by (simp add: new_calls_def)
    with c k g g' cancelled_deregister_or_sleep [OF l] show ?thesis
      by (simp add: same_registry_def)
  qed
qed

lemma retry_get_or_create_job_definition:
  "retry ds (get_or_create_job_definition_body W) s = (s1, r) \<Longrightarrow>
   bs_id_to_aws_id s1 = bs_id_to_aws_id s \<and> aws_id_to_bs_id s1 = aws_id_to_bs_id s \<and>
   killed_job_aws_ids s1 = killed_job_aws_ids s \<and>
   (\<exists>cs. calls s1 = calls s @ cs \<and> cancelled cs = [])"
proof (induction ds arbitrary: s)
  case Nil
  then show ?case
    by (auto simp: get_or_create_job_definition_body_def split: option.splits sum.splits)
next
  case (Cons d ds)
  show ?case
  proof (cases "job_definition s = None \<and> register_job_definition W (calls s) = Inl BotoServerError")
    case False
    with Cons.prems show ?thesis
      by (auto simp: get_or_create_job_definition_body_def split: option.splits sum.splits)
  next
    case True
    then have b: "get_or_create_job_definition_body W s =
        (called RegisterJobDefinition s, Inl BotoServerError)"
      by (simp add: get_or_create_job_definition_body_def)
    with Cons.prems
    have "retry ds (get_or_create_job_definition_body W)
            (called (Sleep d) (called RegisterJobDefinition s)) = (s1, r)"
      by simp
    from Cons.IH [OF this] obtain cs where
      "bs_id_to_aws_id s1 = bs_id_to_aws_id s" "aws_id_to_bs_id s1 = aws_id_to_bs_id s"
      "killed_job_aws_ids s1 = killed_job_aws_ids s"
      "calls s1 = calls s @ ([RegisterJobDefinition, Sleep d] @ cs)" "cancelled cs = []"
      by auto
    then show ?thesis
      by (intro conjI exI [of _ "[RegisterJobDefinition, Sleep d] @ cs"]) simp_all
  qed
qed

lemmas get_or_create_job_definition_effect =
  retry_get_or_create_job_definition
    [of "retry_intervals W" W for W, folded get_or_create_job_definition_def]

lemma issueBatchJob_effect:
  assumes "issueBatchJob W jd s = (s', r)"
  shows "killed_job_aws_ids s' = killed_job_aws_ids s \<and>
     (\<exists>cs. calls s' = calls s @ cs \<and> cancelled cs = []) \<and>
     (case r of
        Inl e \<Rightarrow> bs_id_to_aws_id s' = bs_id_to_aws_id s \<and> aws_id_to_bs_id s' = aws_id_to_bs_id s
      | Inr b \<Rightarrow>
          (case handleLocalJob W (calls s) jd of
             Some l \<Rightarrow> bs_id_to_aws_id s' = bs_id_to_aws_id s \<and> aws_id_to_bs_id s' = aws_id_to_bs_id s
           | None \<Rightarrow> \<exists>a. bs_id_to_aws_id s' = dict_set (bs_id_to_aws_id s) b a \<and>
                         aws_id_to_bs_id s' = dict_set (aws_id_to_bs_id s) a b))"
proof (cases "handleLocalJob W (calls s) jd")
  case (Some l)
  with assms show ?thesis
    by (auto simp: issueBatchJob_def intro!: exI [of _ "[HandleLocalJob]"])
next
  case None
  show ?thesis
  proof (cases "checkResourceRequest W (memory jd) (cores jd) (disk jd)")
    case (Some e)
    with None assms show ?thesis
      by (auto simp: issueBatchJob_def intro!: exI [of _ "[HandleLocalJob]"])
  next
    case ok: None
    let ?s1 = "called GetNextJobID (called HandleLocalJob s)"
    let ?b = "getNextJobID W (calls (called HandleLocalJob s))"
    obtain s2 r2 where g: "get_or_create_job_definition W ?s1 = (s2, r2)"
      by (cases "get_or_create_job_definition W ?s1")
    from get_or_create_job_definition_effect [OF g] obtain cs where
      e: "bs_id_to_aws_id s2 = bs_id_to_aws_id s" "aws_id_to_bs_id s2 = aws_id_to_bs_id s"
      "killed_job_aws_ids s2 = killed_job_aws_ids s"
      and c: "calls s2 = calls s @ ([HandleLocalJob, GetNextJobID] @ cs)" "cancelled cs = []"
      by auto
    show ?thesis
    proof (cases r2)
      case (Inl x)
      with None ok g assms have "s' = s2" "r = Inl x" by (auto simp: issueBatchJob_def Let_def)
      with e c show ?thesis
        by (auto intro!: exI [of _ "[HandleLocalJob, GetNextJobID] @ cs"])
    next
      case (Inr arn)
      let ?spec = "\<lparr>js_jobName = ensafen_name (job_str jd), js_jobDefinition = arn,
                     js_command = command jd,
                     js_resourceRequirements = resourceRequirements jd\<rparr>"
      show ?thesis
      proof (cases "submit_job W (calls s2) ?spec")
        case sx: (Inl x)
        with None ok g Inr assms have "s' = called (SubmitJob ?spec) s2" "r = Inl x"
          by (auto simp: issueBatchJob_def Let_def)
        with e c show ?thesis
          by (auto intro!: exI [of _ "[HandleLocalJob, GetNextJobID] @ cs @ [SubmitJob ?spec]"])
      next
        case sa: (Inr a)
        with None ok g Inr assms have
          s': "s' = (called (SubmitJob ?spec) s2)
                  \<lparr>bs_id_to_aws_id := dict_set (bs_id_to_aws_id s2) ?b a,
                   aws_id_to_bs_id := dict_set (aws_id_to_bs_id s2) a ?b\<rparr>"
          and r: "r = Inr ?b"
          by (auto simp: issueBatchJob_def Let_def)
        have "calls s' = calls s @ ([HandleLocalJob, GetNextJobID] @ cs @ [SubmitJob ?spec])"
          using s' c by simp
        moreover have "cancelled ([HandleLocalJob, GetNextJobID] @ cs @ [SubmitJob ?spec]) = []"
          using c by simp
        ultimately have "\<exists>cs. calls s' = calls s @ cs \<and> cancelled cs = []" by blast
        with s' r e None show ?thesis by auto
      qed
    qed
  qed
qed

lemma registry_inv_insert:
  assumes i: "registry_inv s" and b: "b \<notin> fst ` set (bs_id_to_aws_id s)"
    and a: "a \<notin> fst ` set (aws_id_to_bs_id s)"
    and e: "bs_id_to_aws_id s' = dict_set (bs_id_to_aws_id s) b a"
      "aws_id_to_bs_id s' = dict_set (aws_id_to_bs_id s) a b"
  shows "registry_inv s' \<and> set (bs_id_to_aws_id s') = insert (b, a) (set (bs_id_to_aws_id s)) \<and>
         set (aws_id_to_bs_id s') = insert (a, b) (set (aws_id_to_bs_id s))"
proof -
  from b e have 1: "bs_id_to_aws_id s' = bs_id_to_aws_id s @ [(b, a)]"
    by (simp add: dict_set_def update_fresh)
  from a e have 2: "aws_id_to_bs_id s' = aws_id_to_bs_id s @ [(a, b)]"
    by (simp add: dict_set_def update_fresh)
  from i a b show ?thesis
    unfolding registry_inv_def 1 2 by auto
qed

lemma issued_append [simp]: "issued (tr @ tr') = issued tr @ issued tr'"
  by (induction tr rule: issued.induct) simp_all

lemma emitted_append [simp]: "emitted (tr @ tr') = emitted tr @ emitted tr'"
  by (induction tr rule: emitted.induct) simp_all

lemma forgotten_append [simp]: "forgotten (tr @ tr') = forgotten tr @ forgotten tr'"
  by (induction tr rule: forgotten.induct) simp_all

lemma forgotten_map_Cancelled [simp]: "forgotten (map Cancelled as) = []"
  by (induction as) simp_all

lemma observations_dropped [simp]:
  "issued (dropped s s1) = []" "emitted (dropped s s1) = []" "cancels (dropped s s1) = []"
  "forgotten (dropped s s1) = filter (\<lambda>p. p \<notin> set (bs_id_to_aws_id s1)) (bs_id_to_aws_id s)"
proof -
  have "issued (map (\<lambda>(b, a). Forgotten b a) xs) = [] \<and> emitted (map (\<lambda>(b, a). Forgotten b a) xs) = [] \<and>
      cancels (map (\<lambda>(b, a). Forgotten b a) xs) = [] \<and> forgotten (map (\<lambda>(b, a). Forgotten b a) xs) = xs"
    for xs
    by (induction xs) auto
  then show "issued (dropped s s1) = []" "emitted (dropped s s1) = []" "cancels (dropped s s1) = []"
    "forgotten (dropped s s1) = filter (\<lambda>p. p \<notin> set (bs_id_to_aws_id s1)) (bs_id_to_aws_id s)"
    by (simp_all add: dropped_def)
qed

lemma cancels_append [simp]: "cancels (tr @ tr') = cancels tr @ cancels tr'"
  by (induction tr rule: cancels.induct) simp_all

lemma cancels_map_Cancelled [simp]: "cancels (map Cancelled as) = as"
  by (induction as) simp_all

lemma issued_map_Cancelled [simp]: "issued (map Cancelled as) = []"
  by (induction as) simp_all

lemma emitted_map_Cancelled [simp]: "emitted (map Cancelled as) = []"
  by (induction as) simp_all

lemma Emitted_in_iff: "Emitted ev \<in> set tr \<Longrightarrow> jobID ev \<in> set (emitted tr)"
  by (induction tr rule: emitted.induct) auto

lemma emitted_in_iff: "b \<in> set (emitted tr) \<Longrightarrow> \<exists>ev. Emitted ev \<in> set tr \<and> jobID ev = b"
  by (induction tr rule: emitted.induct) auto

lemma Cancelled_in_iff: "(Cancelled a \<in> set tr) = (a \<in> set (cancels tr))"
  by (induction tr rule: cancels.induct) auto

lemma Issued_in_iff: "(Issued b a \<in> set tr) = ((b, a) \<in> set (issued tr))"
  by (induction tr rule: issued.induct) auto

lemma split_append:
  "tr @ o1 = tr1 @ x # tr2 \<Longrightarrow>
   (\<exists>us. tr = tr1 @ x # us \<and> tr2 = us @ o1) \<or> (\<exists>us. o1 = us @ x # tr2 \<and> tr1 = tr @ us)"
  by (auto simp: append_eq_append_conv2 append_eq_Cons_conv Cons_eq_append_conv)

lemma none_after_cancel_cancels:
  "none_after_cancel I tr \<Longrightarrow> none_after_cancel I (tr @ map Cancelled as)"
  unfolding none_after_cancel_def
proof (intro allI impI, elim conjE)
  fix tr1 tr2 b a ev
  assume h: "\<forall>tr1 tr2 b a ev. tr = tr1 @ Cancelled a # tr2 \<and> (b, a) \<in> I \<and> Emitted ev \<in> set tr2 \<longrightarrow>
        jobID ev \<noteq> b"
    and e: "tr @ map Cancelled as = tr1 @ Cancelled a # tr2" and i: "(b, a) \<in> I"
    and m: "Emitted ev \<in> set tr2"
  from split_append [OF e] show "jobID ev \<noteq> b"
  proof
    assume "\<exists>us. tr = tr1 @ Cancelled a # us \<and> tr2 = us @ map Cancelled as"
    then obtain us where u: "tr = tr1 @ Cancelled a # us" "tr2 = us @ map Cancelled as" by blast
    with m have "Emitted ev \<in> set us" by auto
    with h u i show ?thesis by blast
  next
    assume "\<exists>us. map Cancelled as = us @ Cancelled a # tr2 \<and> tr1 = tr @ us"
    then obtain us where "map Cancelled as = us @ Cancelled a # tr2" by blast
    then have "set tr2 \<subseteq> set (map Cancelled as)" by (metis set_append set_subset_Cons sup.coboundedI2 list.simps(15) Un_upper2 subset_trans)
    with m show ?thesis by auto
  qed
qed

lemma none_after_cancel_other:
  "none_after_cancel I tr \<Longrightarrow> (\<forall>a. x \<noteq> Cancelled a) \<Longrightarrow> (\<forall>ev. x \<noteq> Emitted ev) \<Longrightarrow>
   none_after_cancel I (tr @ [x])"
  unfolding none_after_cancel_def
proof (intro allI impI, elim conjE)
  fix tr1 tr2 b a ev
  assume h: "\<forall>tr1 tr2 b a ev. tr = tr1 @ Cancelled a # tr2 \<and> (b, a) \<in> I \<and> Emitted ev \<in> set tr2 \<longrightarrow>
        jobID ev \<noteq> b"
    and x: "\<forall>a. x \<noteq> Cancelled a" "\<forall>ev. x \<noteq> Emitted ev"
    and e: "tr @ [x] = tr1 @ Cancelled a # tr2" and i: "(b, a) \<in> I"
    and m: "Emitted ev \<in> set tr2"
  from split_append [OF e] show "jobID ev \<noteq> b"
  proof
    assume "\<exists>us. tr = tr1 @ Cancelled a # us \<and> tr2 = us @ [x]"
    then obtain us where u: "tr = tr1 @ Cancelled a # us" "tr2 = us @ [x]" by blast
    with m x have "Emitted ev \<in> set us" by auto
    with h u i show ?thesis by blast
  next
    assume "\<exists>us. [x] = us @ Cancelled a # tr2 \<and> tr1 = tr @ us"
    with x show ?thesis by (auto simp: Cons_eq_append_conv)
  qed
qed

lemma none_after_cancel_dropped:
  "none_after_cancel I tr \<Longrightarrow> none_after_cancel I (tr @ dropped s s1)"
proof -
  have "none_after_cancel I tr \<Longrightarrow> none_after_cancel I (tr @ map (\<lambda>(b, a). Forgotten b a) xs)" for xs
  proof (induction xs rule: rev_induct)
    case Nil
    then show ?case by simp
  next
    case (snoc x xs)
    obtain b a where x: "x = (b, a)" by (cases x)
    from snoc have "none_after_cancel I ((tr @ map (\<lambda>(b, a). Forgotten b a) xs) @ [Forgotten b a])"
      by (intro none_after_cancel_other) simp_all
    with x show ?case by simp
  qed
  then show "none_after_cancel I tr \<Longrightarrow> none_after_cancel I (tr @ dropped s s1)"
    by (simp add: dropped_def)
qed

lemma none_after_cancel_emit:
  assumes h: "none_after_cancel I tr"
    and n: "\<forall>a\<in>set (cancels tr). (jobID ev0, a) \<notin> I"
  shows "none_after_cancel I (tr @ [Emitted ev0])"
  unfolding none_after_cancel_def
proof (intro allI impI, elim conjE)
  fix tr1 tr2 b a ev
  assume e: "tr @ [Emitted ev0] = tr1 @ Cancelled a # tr2" and i: "(b, a) \<in> I"
    and m: "Emitted ev \<in> set tr2"
  from split_append [OF e] show "jobID ev \<noteq> b"
  proof
    assume "\<exists>us. tr = tr1 @ Cancelled a # us \<and> tr2 = us @ [Emitted ev0]"
    then obtain us where u: "tr = tr1 @ Cancelled a # us" "tr2 = us @ [Emitted ev0]" by blast
    from u(1) have c: "a \<in> set (cancels tr)" by simp
    from m u consider "Emitted ev \<in> set us" | "ev = ev0" by auto
    then show ?thesis
    proof cases
      case 1
      with h u i show ?thesis unfolding none_after_cancel_def by blast
    next
      case 2
      with n c i show ?thesis by blast
    qed
  next
    assume "\<exists>us. [Emitted ev0] = us @ Cancelled a # tr2 \<and> tr1 = tr @ us"
    then show ?thesis by (auto simp: Cons_eq_append_conv)
  qed
qed

lemma registry_inv_maps:
  "bs_id_to_aws_id s1 = bs_id_to_aws_id s \<Longrightarrow> aws_id_to_bs_id s1 = aws_id_to_bs_id s \<Longrightarrow>
   registry_inv s1 = registry_inv s"
  by (simp add: registry_inv_def)

lemma registry_inv_bs_subset:
  assumes "registry_inv s" "registry_inv s1" "set (aws_id_to_bs_id s1) \<subseteq> set (aws_id_to_bs_id s)"
  shows "set (bs_id_to_aws_id s1) \<subseteq> set (bs_id_to_aws_id s)"
proof
  fix p assume p: "p \<in> set (bs_id_to_aws_id s1)"
  obtain b a where ba: "p = (b, a)" by (cases p)
  with p assms(2) have "(a, b) \<in> set (aws_id_to_bs_id s1)" by (simp add: registry_inv_swap)
  with assms(3) have "(a, b) \<in> set (aws_id_to_bs_id s)" by blast
  with assms(1) ba show "p \<in> set (bs_id_to_aws_id s)" by (simp add: registry_inv_swap)
qed

lemma trace_invI:
  assumes "registry_inv s"
    and "set (bs_id_to_aws_id s) \<subseteq> set (issued tr)"
    and "set (emitted tr) \<subseteq> fst ` set (issued tr)"
    and "set (emitted tr) \<inter> fst ` set (bs_id_to_aws_id s) = {}"
    and "distinct (emitted tr)"
    and "\<forall>p\<in>set (bs_id_to_aws_id s). snd p \<in> set (cancels tr) \<longrightarrow> snd p \<in> killed_job_aws_ids s"
    and "set (cancels tr) \<subseteq> snd ` set (issued tr)"
    and "none_after_cancel I tr"
    and "set (bs_id_to_aws_id s) = set (issued tr) - set (forgotten tr)"
    and "distinct (forgotten tr)"
    and "set (forgotten tr) \<subseteq> set (issued tr)"
  shows "trace_inv I s tr"
  unfolding trace_inv_def using assms by (intro conjI)

lemma trace_invD:
  assumes "trace_inv I s tr"
  shows "registry_inv s"
    and "set (bs_id_to_aws_id s) \<subseteq> set (issued tr)"
    and "set (emitted tr) \<subseteq> fst ` set (issued tr)"
    and "set (emitted tr) \<inter> fst ` set (bs_id_to_aws_id s) = {}"
    and "distinct (emitted tr)"
    and "\<forall>p\<in>set (bs_id_to_aws_id s). snd p \<in> set (cancels tr) \<longrightarrow> snd p \<in> killed_job_aws_ids s"
    and "set (cancels tr) \<subseteq> snd ` set (issued tr)"
    and "none_after_cancel I tr"
    and "set (bs_id_to_aws_id s) = set (issued tr) - set (forgotten tr)"
    and "distinct (forgotten tr)"
    and "set (forgotten tr) \<subseteq> set (issued tr)"
  using assms unfolding trace_inv_def by blast+

lemma trace_inv_cancel:
  assumes J: "trace_inv I s tr"
    and e: "bs_id_to_aws_id s1 = bs_id_to_aws_id s" "aws_id_to_bs_id s1 = aws_id_to_bs_id s"
    and k: "killed_job_aws_ids s \<subseteq> killed_job_aws_ids s1"
    and c: "set as \<subseteq> killed_job_aws_ids s1 \<inter> snd ` set (bs_id_to_aws_id s)"
  shows "trace_inv I s1 (tr @ map Cancelled as)"
proof (rule trace_invI)
  note j = trace_invD [OF J]
  show "registry_inv s1" using j(1) by (simp add: registry_inv_maps [OF e])
  show "set (bs_id_to_aws_id s1) \<subseteq> set (issued (tr @ map Cancelled as))" using j(2) e by simp
  show "set (emitted (tr @ map Cancelled as)) \<subseteq> fst ` set (issued (tr @ map Cancelled as))"
    using j(3) by simp
  show "set (emitted (tr @ map Cancelled as)) \<inter> fst ` set (bs_id_to_aws_id s1) = {}"
    using j(4) e by simp
  show "distinct (emitted (tr @ map Cancelled as))" using j(5) by simp
  show "\<forall>p\<in>set (bs_id_to_aws_id s1). snd p \<in> set (cancels (tr @ map Cancelled as)) \<longrightarrow>
          snd p \<in> killed_job_aws_ids s1"
  proof (intro ballI impI)
    fix p assume p: "p \<in> set (bs_id_to_aws_id s1)" "snd p \<in> set (cancels (tr @ map Cancelled as))"
    then consider "snd p \<in> set (cancels tr)" | "snd p \<in> set as" by auto
    then show "snd p \<in> killed_job_aws_ids s1"
    proof cases
      case 1
      with p(1) e j(6) have "snd p \<in> killed_job_aws_ids s" by simp
      with k show ?thesis by blast
    next
      case 2
      with c show ?thesis by blast
    qed
  qed
  show "set (cancels (tr @ map Cancelled as)) \<subseteq> snd ` set (issued (tr @ map Cancelled as))"
  proof -
    from j(2) have "snd ` set (bs_id_to_aws_id s) \<subseteq> snd ` set (issued tr)" by blast
    with c have "set as \<subseteq> snd ` set (issued tr)" by blast
    with j(7) show ?thesis by simp
  qed
  show "none_after_cancel I (tr @ map Cancelled as)"
    using j(8) by (rule none_after_cancel_cancels)
  show "set (bs_id_to_aws_id s1) = set (issued (tr @ map Cancelled as)) - set (forgotten (tr @ map Cancelled as))"
    using j(9) e by simp
  show "distinct (forgotten (tr @ map Cancelled as))" using j(10) by simp
  show "set (forgotten (tr @ map Cancelled as)) \<subseteq> set (issued (tr @ map Cancelled as))"
    using j(11) by simp
qed

lemma trace_inv_kill:
  assumes J: "trace_inv I s tr" and x: "exec fuel W (KillBatchJobs ids) s = Some (s1, o1)"
  shows "trace_inv I s1 (tr @ o1)"
proof -
  from x obtain r where k: "killBatchJobs fuel W ids s = Some (s1, r)"
    and o: "o1 = map Cancelled (cancelled (new_calls s s1))"
    by (auto split: option.splits)
  from killBatchJobs_effect [OF k] have
    "bs_id_to_aws_id s1 = bs_id_to_aws_id s" "aws_id_to_bs_id s1 = aws_id_to_bs_id s"
    "killed_job_aws_ids s \<subseteq> killed_job_aws_ids s1"
    "set (cancelled (new_calls s s1)) \<subseteq> killed_job_aws_ids s1 \<inter> snd ` set (bs_id_to_aws_id s)"
    by (simp_all add: same_registry_def)
  then show ?thesis unfolding o by (rule trace_inv_cancel [OF J])
qed

lemma trace_inv_shutdown:
  assumes J: "trace_inv I s tr" and x: "exec fuel W Shutdown s = Some (s1, o1)"
  shows "trace_inv I s1 (tr @ o1)"
proof -
  from x obtain r where k: "shutdown W s = (s1, r)"
    and o: "o1 = map Cancelled (cancelled (new_calls s s1))"
    by (auto split: prod.splits)
  from trace_invD(1) [OF J] have "fst ` set (aws_id_to_bs_id s) = snd ` set (bs_id_to_aws_id s)"
    by (rule registry_inv_keys)
  with shutdown_effect [OF k] have
    "bs_id_to_aws_id s1 = bs_id_to_aws_id s" "aws_id_to_bs_id s1 = aws_id_to_bs_id s"
    "killed_job_aws_ids s \<subseteq> killed_job_aws_ids s1"
    "set (cancelled (new_calls s s1)) \<subseteq> killed_job_aws_ids s1 \<inter> snd ` set (bs_id_to_aws_id s)"
    by simp_all
  then show ?thesis unfolding o by (rule trace_inv_cancel [OF J])
qed

lemma trace_inv_same:
  assumes J: "trace_inv I s tr"
    and e: "bs_id_to_aws_id s1 = bs_id_to_aws_id s" "aws_id_to_bs_id s1 = aws_id_to_bs_id s"
    and k: "killed_job_aws_ids s1 = killed_job_aws_ids s"
  shows "trace_inv I s1 tr"
  using trace_inv_cancel [OF J e, of "[]"] k by simp

lemma trace_inv_issue:
  assumes J: "trace_inv I s tr" and x: "exec fuel W (IssueBatchJob jd) s = Some (s1, o1)"
    and d: "distinct (map fst (issued (tr @ o1)))" "distinct (map snd (issued (tr @ o1)))"
  shows "trace_inv I s1 (tr @ o1)"
proof -
  note j = trace_invD [OF J]
  obtain r where i: "issueBatchJob W jd s = (s1, r)"
    using x by (auto split: prod.splits sum.splits option.splits)
  from issueBatchJob_effect [OF i] have ki: "killed_job_aws_ids s1 = killed_job_aws_ids s"
    and reg: "(case r of
        Inl e \<Rightarrow> bs_id_to_aws_id s1 = bs_id_to_aws_id s \<and> aws_id_to_bs_id s1 = aws_id_to_bs_id s
      | Inr b \<Rightarrow>
          (case handleLocalJob W (calls s) jd of
             Some l \<Rightarrow> bs_id_to_aws_id s1 = bs_id_to_aws_id s \<and> aws_id_to_bs_id s1 = aws_id_to_bs_id s
           | None \<Rightarrow> \<exists>a. bs_id_to_aws_id s1 = dict_set (bs_id_to_aws_id s) b a \<and>
                         aws_id_to_bs_id s1 = dict_set (aws_id_to_bs_id s) a b))"
    by blast+
  show ?thesis
  proof (cases "\<exists>b. r = Inr b \<and> handleLocalJob W (calls s) jd = None")
    case False
    with reg have e: "bs_id_to_aws_id s1 = bs_id_to_aws_id s" "aws_id_to_bs_id s1 = aws_id_to_bs_id s"
      by (auto split: sum.splits option.splits)
    from False i x have "o1 = []" by (auto split: sum.splits option.splits)
    with trace_inv_same [OF J e ki] show ?thesis by simp
  next
    case True
    then obtain b where r: "r = Inr b" and l: "handleLocalJob W (calls s) jd = None" by blast
    with reg obtain a where e: "bs_id_to_aws_id s1 = dict_set (bs_id_to_aws_id s) b a"
      "aws_id_to_bs_id s1 = dict_set (aws_id_to_bs_id s) a b" by auto
    from e(1) have "map_of (bs_id_to_aws_id s1) b = Some a"
      by (simp add: dict_set_def update_conv')
    with i r l x have o: "o1 = [Issued b a]" by simp
    from d o have fb: "b \<notin> fst ` set (issued tr)" and fa: "a \<notin> snd ` set (issued tr)" by auto
    from fb j(2) have nb: "b \<notin> fst ` set (bs_id_to_aws_id s)" by auto
    from fa j(2) registry_inv_keys [OF j(1)] have na: "a \<notin> fst ` set (aws_id_to_bs_id s)" by auto
    from registry_inv_insert [OF j(1) nb na e] have
      1: "registry_inv s1" and sb: "set (bs_id_to_aws_id s1) = insert (b, a) (set (bs_id_to_aws_id s))"
      by blast+
    from j(3) fb have nbe: "b \<notin> set (emitted tr)" by auto
    from j(7) fa have nac: "a \<notin> set (cancels tr)" by auto
    from fb have nis: "(b, a) \<notin> set (issued tr)" by force
    with j(11) have nfo: "(b, a) \<notin> set (forgotten tr)" by blast
    show ?thesis
      unfolding o
    proof (rule trace_invI)
      show "registry_inv s1" by (rule 1)
      show "set (bs_id_to_aws_id s1) \<subseteq> set (issued (tr @ [Issued b a]))" using sb j(2) by auto
      show "set (emitted (tr @ [Issued b a])) \<subseteq> fst ` set (issued (tr @ [Issued b a]))"
        using j(3) by auto
      show "set (emitted (tr @ [Issued b a])) \<inter> fst ` set (bs_id_to_aws_id s1) = {}"
        using j(4) nbe sb by auto
      show "distinct (emitted (tr @ [Issued b a]))" using j(5) by simp
      show "\<forall>p\<in>set (bs_id_to_aws_id s1). snd p \<in> set (cancels (tr @ [Issued b a])) \<longrightarrow>
              snd p \<in> killed_job_aws_ids s1"
        using j(6) sb nac ki by auto
      show "set (cancels (tr @ [Issued b a])) \<subseteq> snd ` set (issued (tr @ [Issued b a]))"
        using j(7) by auto
      show "none_after_cancel I (tr @ [Issued b a])"
        using j(8) by (intro none_after_cancel_other) simp_all
      show "set (bs_id_to_aws_id s1) = set (issued (tr @ [Issued b a])) - set (forgotten (tr @ [Issued b a]))"
        using sb j(9) nfo by auto
      show "distinct (forgotten (tr @ [Issued b a]))" using j(10) by simp
      show "set (forgotten (tr @ [Issued b a])) \<subseteq> set (issued (tr @ [Issued b a]))"
        using j(11) by auto
    qed
  qed
qed

lemma trace_inv_quiet:
  assumes J: "trace_inv I s tr"
    and e: "issued tr' = issued tr" "emitted tr' = emitted tr" "cancels tr' = cancels tr"
      "forgotten tr' = forgotten tr"
    and n: "none_after_cancel I tr'"
  shows "trace_inv I s tr'"
proof (rule trace_invI)
  note j = trace_invD [OF J]
  show "registry_inv s" by (rule j(1))
  show "set (bs_id_to_aws_id s) \<subseteq> set (issued tr')" unfolding e by (rule j(2))
  show "set (emitted tr') \<subseteq> fst ` set (issued tr')" unfolding e by (rule j(3))
  show "set (emitted tr') \<inter> fst ` set (bs_id_to_aws_id s) = {}" unfolding e by (rule j(4))
  show "distinct (emitted tr')" unfolding e by (rule j(5))
  show "\<forall>p\<in>set (bs_id_to_aws_id s). snd p \<in> set (cancels tr') \<longrightarrow> snd p \<in> killed_job_aws_ids s"
    unfolding e by (rule j(6))
  show "set (cancels tr') \<subseteq> snd ` set (issued tr')" unfolding e by (rule j(7))
  show "none_after_cancel I tr'" by (rule n)
  show "set (bs_id_to_aws_id s) = set (issued tr') - set (forgotten tr')" unfolding e by (rule j(9))
  show "distinct (forgotten tr')" unfolding e by (rule j(10))
  show "set (forgotten tr') \<subseteq> set (issued tr')" unfolding e by (rule j(11))
qed

lemma trace_inv_forget:
  assumes J: "trace_inv I s tr"
    and 1: "registry_inv s1"
    and a: "set (aws_id_to_bs_id s1) \<subseteq> set (aws_id_to_bs_id s)"
    and k: "\<forall>a\<in>fst ` set (aws_id_to_bs_id s1). a \<in> killed_job_aws_ids s \<longrightarrow> a \<in> killed_job_aws_ids s1"
  shows "trace_inv I s1 (tr @ dropped s s1)"
proof (rule trace_invI)
  note j = trace_invD [OF J]
  let ?tr = "tr @ dropped s s1"
  let ?F = "filter (\<lambda>p. p \<notin> set (bs_id_to_aws_id s1)) (bs_id_to_aws_id s)"
  from registry_inv_bs_subset [OF j(1) 1 a]
  have b: "set (bs_id_to_aws_id s1) \<subseteq> set (bs_id_to_aws_id s)" .
  have F: "set ?F = set (bs_id_to_aws_id s) - set (bs_id_to_aws_id s1)" by auto
  from j(1) have "distinct (map fst (bs_id_to_aws_id s))" by (simp add: registry_inv_def)
  then have "distinct (bs_id_to_aws_id s)" by (simp add: distinct_map)
  then have dF: "distinct ?F" by (rule distinct_filter)
  have it: "issued ?tr = issued tr" and et: "emitted ?tr = emitted tr"
    and ct: "cancels ?tr = cancels tr" and ft: "forgotten ?tr = forgotten tr @ ?F"
    by simp_all
  show "registry_inv s1" by (rule 1)
  show "set (bs_id_to_aws_id s1) \<subseteq> set (issued ?tr)" unfolding it using b j(2) by (rule subset_trans)
  show "set (emitted ?tr) \<subseteq> fst ` set (issued ?tr)" unfolding it et by (rule j(3))
  show "set (emitted ?tr) \<inter> fst ` set (bs_id_to_aws_id s1) = {}" unfolding et using j(4) b by blast
  show "distinct (emitted ?tr)" unfolding et by (rule j(5))
  show "\<forall>p\<in>set (bs_id_to_aws_id s1). snd p \<in> set (cancels ?tr) \<longrightarrow> snd p \<in> killed_job_aws_ids s1"
    unfolding ct
  proof (intro ballI impI)
    fix q assume q: "q \<in> set (bs_id_to_aws_id s1)" and c: "snd q \<in> set (cancels tr)"
    from q b have "q \<in> set (bs_id_to_aws_id s)" by blast
    with j(6) c have "snd q \<in> killed_job_aws_ids s" by blast
    moreover from q have "(fst q, snd q) \<in> set (bs_id_to_aws_id s1)" by simp
    with 1 have "(snd q, fst q) \<in> set (aws_id_to_bs_id s1)"
      by (simp only: registry_inv_swap)
    then have "snd q \<in> fst ` set (aws_id_to_bs_id s1)" by force
    ultimately show "snd q \<in> killed_job_aws_ids s1" using k by blast
  qed
  show "set (cancels ?tr) \<subseteq> snd ` set (issued ?tr)" unfolding ct it by (rule j(7))
  show "none_after_cancel I ?tr" using j(8) by (rule none_after_cancel_dropped)
  have sF: "set (forgotten ?tr) = set (forgotten tr) \<union> set ?F" unfolding ft by (rule set_append)
  have bs: "set (bs_id_to_aws_id s) = set (issued tr) - set (forgotten tr)" by (rule j(9))
  show "set (bs_id_to_aws_id s1) = set (issued ?tr) - set (forgotten ?tr)"
    unfolding it sF F using b bs by blast
  have "set (forgotten tr) \<inter> set ?F = {}" unfolding F using bs by blast
  with j(10) dF show "distinct (forgotten ?tr)" unfolding ft by (simp only: distinct_append)
  show "set (forgotten ?tr) \<subseteq> set (issued ?tr)" unfolding it sF F using j(11) j(2) by blast
qed

lemma trace_inv_poll:
  assumes J: "trace_inv I s tr" and x: "exec fuel W PollPass s = Some (s1, o1)"
    and sub: "set (issued tr) \<subseteq> I"
    and fn: "\<forall>b a a'. (b, a) \<in> I \<and> (b, a') \<in> I \<longrightarrow> a = a'"
  shows "trace_inv I s1 (tr @ o1)"
proof -
  note j = trace_invD [OF J]
  obtain r where p: "poll_pass W s = (s1, r)"
    using x by (auto split: prod.splits sum.splits option.splits)
  from poll_pass_effect [OF j(1) p] have
    1: "registry_inv s1" and a: "set (aws_id_to_bs_id s1) \<subseteq> set (aws_id_to_bs_id s)"
    and k: "\<forall>a\<in>fst ` set (aws_id_to_bs_id s1). a \<in> killed_job_aws_ids s \<longrightarrow> a \<in> killed_job_aws_ids s1"
    and em: "getUpdatedLocalJob W (calls s) = None \<longrightarrow>
        (\<forall>ev. r = Inr (Some ev) \<longrightarrow>
           (\<exists>a. (a, jobID ev) \<in> set (aws_id_to_bs_id s) \<and> a \<notin> killed_job_aws_ids s \<and>
                a \<notin> fst ` set (aws_id_to_bs_id s1)))"
    by blast+
  from registry_inv_bs_subset [OF j(1) 1 a]
  have b: "set (bs_id_to_aws_id s1) \<subseteq> set (bs_id_to_aws_id s)" .
  let ?tr = "tr @ dropped s s1"
  have it: "issued ?tr = issued tr" and et: "emitted ?tr = emitted tr"
    and ct: "cancels ?tr = cancels tr"
    by simp_all
  have quiet: "trace_inv I s1 ?tr" using J 1 a k by (rule trace_inv_forget)
  note q = trace_invD [OF quiet]
  show ?thesis
  proof (cases "\<exists>ev. r = Inr (Some ev)")
    case False
    with p x have "o1 = dropped s s1" by (auto split: sum.splits option.splits)
    with quiet show ?thesis by simp
  next
    case True
    then obtain ev where r: "r = Inr (Some ev)" by blast
    show ?thesis
    proof (cases "getUpdatedLocalJob W (calls s)")
      case (Some l)
      with p r x have o: "o1 = dropped s s1 @ [LocalUpdate ev]" by simp
      have n: "none_after_cancel I (?tr @ [LocalUpdate ev])"
        using q(8) by (intro none_after_cancel_other) simp_all
      have "trace_inv I s1 (?tr @ [LocalUpdate ev])"
        by (rule trace_inv_quiet [OF quiet _ _ _ _ n]) simp_all
      then show ?thesis unfolding o by simp
    next
      case None
      with p r x have o: "o1 = dropped s s1 @ [Emitted ev]" by simp
      from em None r obtain a0 where
        m: "(a0, jobID ev) \<in> set (aws_id_to_bs_id s)" and nk: "a0 \<notin> killed_job_aws_ids s"
        and gone: "a0 \<notin> fst ` set (aws_id_to_bs_id s1)" by blast
      from m j(1) have mb: "(jobID ev, a0) \<in> set (bs_id_to_aws_id s)" by (simp add: registry_inv_swap)
      with j(2) have mi: "(jobID ev, a0) \<in> set (issued tr)" by blast
      from mb have key: "jobID ev \<in> fst ` set (bs_id_to_aws_id s)" by force
      with j(4) have fresh: "jobID ev \<notin> set (emitted tr)" by blast
      have nokey: "jobID ev \<notin> fst ` set (bs_id_to_aws_id s1)"
      proof
        assume "jobID ev \<in> fst ` set (bs_id_to_aws_id s1)"
        then obtain a' where a': "(jobID ev, a') \<in> set (bs_id_to_aws_id s1)" by force
        with b have "(jobID ev, a') \<in> set (bs_id_to_aws_id s)" by blast
        with mb j(1) have "a' = a0" unfolding registry_inv_def by (metis eq_key_imp_eq_value)
        with a' 1 have "(a0, jobID ev) \<in> set (aws_id_to_bs_id s1)" by (simp add: registry_inv_swap)
        with gone show False by force
      qed
      have nc: "\<forall>a\<in>set (cancels ?tr). (jobID ev, a) \<notin> I"
        unfolding ct
      proof
        fix a assume c: "a \<in> set (cancels tr)"
        show "(jobID ev, a) \<notin> I"
        proof
          assume "(jobID ev, a) \<in> I"
          with mi sub fn have "a = a0" by blast
          with c mb j(6) have "a0 \<in> killed_job_aws_ids s" by force
          with nk show False by simp
        qed
      qed
      from none_after_cancel_emit [OF q(8) nc] have 8: "none_after_cancel I (?tr @ [Emitted ev])" .
      from mi have isd: "jobID ev \<in> fst ` set (issued tr)" by force
      let ?te = "?tr @ [Emitted ev]"
      have ie: "issued ?te = issued ?tr" and ee: "emitted ?te = emitted ?tr @ [jobID ev]"
        and ce: "cancels ?te = cancels ?tr" and fe: "forgotten ?te = forgotten ?tr"
        by simp_all
      have "trace_inv I s1 ?te"
      proof (rule trace_invI)
        show "registry_inv s1" by (rule 1)
        show "set (bs_id_to_aws_id s1) \<subseteq> set (issued ?te)" unfolding ie by (rule q(2))
        show "set (emitted ?te) \<subseteq> fst ` set (issued ?te)"
          unfolding ie ee using q(3) isd unfolding it by simp
        show "set (emitted ?te) \<inter> fst ` set (bs_id_to_aws_id s1) = {}"
          unfolding ee using q(4) nokey by simp
        show "distinct (emitted ?te)" unfolding ee using q(5) fresh unfolding et by simp
        show "\<forall>p\<in>set (bs_id_to_aws_id s1). snd p \<in> set (cancels ?te) \<longrightarrow>
                snd p \<in> killed_job_aws_ids s1"
          unfolding ce by (rule q(6))
        show "set (cancels ?te) \<subseteq> snd ` set (issued ?te)" unfolding ce ie by (rule q(7))
        show "none_after_cancel I ?te" by (rule 8)
        show "set (bs_id_to_aws_id s1) = set (issued ?te) - set (forgotten ?te)"
          unfolding ie fe by (rule q(9))
        show "distinct (forgotten ?te)" unfolding fe by (rule q(10))
        show "set (forgotten ?te) \<subseteq> set (issued ?te)" unfolding fe ie by (rule q(11))
      qed
      then show ?thesis unfolding o by simp
    qed
  qed
qed

lemma trace_inv_exec:
  assumes J: "trace_inv I s tr" and x: "exec fuel W op s = Some (s1, o1)"
    and d: "distinct (map fst (issued (tr @ o1)))" "distinct (map snd (issued (tr @ o1)))"
    and sub: "set (issued tr) \<subseteq> I"
    and fn: "\<forall>b a a'. (b, a) \<in> I \<and> (b, a') \<in> I \<longrightarrow> a = a'"
  shows "trace_inv I s1 (tr @ o1)"
proof (cases op)
  case (IssueBatchJob jd)
  with J x d show ?thesis by (auto intro: trace_inv_issue)
next
  case PollPass
  with J x sub fn show ?thesis by (auto intro: trace_inv_poll)
next
  case (Wait d)
  with x have "s1 = called (Sleep d) s" "o1 = []" by auto
  with trace_inv_same [OF J, of s1] show ?thesis by simp
next
  case (KillBatchJobs ids)
  with J x show ?thesis by (auto intro: trace_inv_kill)
next
  case Shutdown
  with J x show ?thesis by (auto intro: trace_inv_shutdown)
qed

lemma trace_inv_run:
  "trace_inv I s tr \<Longrightarrow> run fuel W ops s = Some (s', tr') \<Longrightarrow>
   distinct (map fst (issued (tr @ tr'))) \<Longrightarrow> distinct (map snd (issued (tr @ tr'))) \<Longrightarrow>
   set (issued (tr @ tr')) \<subseteq> I \<Longrightarrow> \<forall>b a a'. (b, a) \<in> I \<and> (b, a') \<in> I \<longrightarrow> a = a' \<Longrightarrow>
   trace_inv I s' (tr @ tr')"
proof (induction ops arbitrary: s tr tr')
  case Nil
  then show ?case by simp
next
  case (Cons op ops)
  from Cons.prems(2) obtain s1 o1 o2 where
    x: "exec fuel W op s = Some (s1, o1)" and r: "run fuel W ops s1 = Some (s', o2)"
    and t: "tr' = o1 @ o2"
    by (auto split: option.splits)
  from Cons.prems(3,4) t have d1: "distinct (map fst (issued (tr @ o1)))"
    "distinct (map snd (issued (tr @ o1)))" by auto
  from Cons.prems(5) t have s1: "set (issued tr) \<subseteq> I" by simp
  from trace_inv_exec [OF Cons.prems(1) x d1 s1 Cons.prems(6)]
  have J1: "trace_inv I s1 (tr @ o1)" .
  from Cons.IH [OF J1 r] Cons.prems(3,4,5,6) t show ?case by simp
qed

lemma trace_inv_init: "trace_inv I init []"
  by (rule trace_invI) (simp_all add: registry_inv_def init_def none_after_cancel_def)

lemma distinct_fst_functional:
  "distinct (map fst xs) \<Longrightarrow> \<forall>b a a'. (b, a) \<in> set xs \<and> (b, a') \<in> set xs \<longrightarrow> a = a'"
  by (metis eq_key_imp_eq_value)

lemma run_trace_inv:
  assumes "run fuel W ops init = Some (s, tr)"
    and "distinct (map fst (issued tr))" and "distinct (map snd (issued tr))"
  shows "trace_inv (set (issued tr)) s tr"
  using trace_inv_run [OF trace_inv_init assms(1), of "set (issued tr)"] assms(2,3)
    distinct_fst_functional [OF assms(2)]
  by simp

lemma registry_inv_length:
  assumes "registry_inv s"
  shows "length (bs_id_to_aws_id s) = length (aws_id_to_bs_id s)"
proof -
  from assms have da: "distinct (aws_id_to_bs_id s)" and db: "distinct (bs_id_to_aws_id s)"
    and sw: "set (aws_id_to_bs_id s) = (\<lambda>(b, a). (a, b)) ` set (bs_id_to_aws_id s)"
    by (auto simp: registry_inv_def distinct_map)
  have "inj_on (\<lambda>(b, a). (a, b)) (set (bs_id_to_aws_id s))"
    by (auto simp: inj_on_def)
  then have "card (set (aws_id_to_bs_id s)) = card (set (bs_id_to_aws_id s))"
    unfolding sw by (rule card_image)
  with da db show ?thesis by (simp add: distinct_card)
qed

lemma registry_inv_handles:
  assumes "registry_inv s"
  shows "distinct (map snd (bs_id_to_aws_id s))" and "distinct (map snd (aws_id_to_bs_id s))"
proof -
  from assms have da: "distinct (map fst (aws_id_to_bs_id s))"
    and db: "distinct (map fst (bs_id_to_aws_id s))"
    by (simp_all add: registry_inv_def)
  have "inj_on snd (set (bs_id_to_aws_id s))"
  proof (rule inj_onI)
    fix p q assume p: "p \<in> set (bs_id_to_aws_id s)" and q: "q \<in> set (bs_id_to_aws_id s)"
      and e: "snd p = snd q"
    from p have "(fst p, snd p) \<in> set (bs_id_to_aws_id s)" by simp
    with assms have 1: "(snd p, fst p) \<in> set (aws_id_to_bs_id s)" by (simp only: registry_inv_swap)
    from q have "(fst q, snd q) \<in> set (bs_id_to_aws_id s)" by simp
    with assms e have 2: "(snd p, fst q) \<in> set (aws_id_to_bs_id s)" by (simp only: registry_inv_swap)
    from da 1 2 have "fst p = fst q" by (rule eq_key_imp_eq_value)
    with e show "p = q" by (simp add: prod_eq_iff)
  qed
  moreover from db have "distinct (bs_id_to_aws_id s)" by (simp add: distinct_map)
  ultimately show "distinct (map snd (bs_id_to_aws_id s))" by (simp add: distinct_map)
  have "inj_on snd (set (aws_id_to_bs_id s))"
  proof (rule inj_onI)
    fix p q assume p: "p \<in> set (aws_id_to_bs_id s)" and q: "q \<in> set (aws_id_to_bs_id s)"
      and e: "snd p = snd q"
    from p have "(fst p, snd p) \<in> set (aws_id_to_bs_id s)" by simp
    with assms have 1: "(snd p, fst p) \<in> set (bs_id_to_aws_id s)" by (simp only: registry_inv_swap)
    from q have "(fst q, snd q) \<in> set (aws_id_to_bs_id s)" by simp
    with assms e have 2: "(snd p, fst q) \<in> set (bs_id_to_aws_id s)" by (simp only: registry_inv_swap)
    from db 1 2 have "fst p = fst q" by (rule eq_key_imp_eq_value)
    with e show "p = q" by (simp add: prod_eq_iff)
  qed
  moreover from da have "distinct (aws_id_to_bs_id s)" by (simp add: distinct_map)
  ultimately show "distinct (map snd (aws_id_to_bs_id s))" by (simp add: distinct_map)
qed

lemma length_outstanding:
  assumes "distinct xs" "distinct ys" "distinct zs" "set ys \<subseteq> set xs" "set zs = set xs - set ys"
  shows "length zs = length xs - length ys"
proof -
  from assms(3) have "length zs = card (set zs)" by (simp add: distinct_card)
  also from assms(5) have "\<dots> = card (set xs - set ys)" by simp
  also from assms(4) have "\<dots> = card (set xs) - card (set ys)" by (simp add: card_Diff_subset)
  also from assms(1,2) have "\<dots> = length xs - length ys" by (simp add: distinct_card)
  finally show ?thesis .
qed

lemma exec_PollPass:
  "poll_pass W s = (s1, r) \<Longrightarrow> \<exists>o1. exec fuel W PollPass s = Some (s1, o1)"
  by (auto split: sum.splits option.splits)

text \<open>A call of \<open>getUpdatedBatchJob\<close> that returns is a run of passes and sleeps.\<close>

lemma getUpdatedBatchJob_loop_passes:
  "getUpdatedBatchJob_loop n W maxWait entry s = Some (s', r) \<Longrightarrow>
   \<exists>ops tr. set ops \<subseteq> {PollPass, Wait (min (of_int maxWait / 2) 1)} \<and>
      run fuel W ops s = Some (s', tr)"
proof (induction n arbitrary: s)
  case 0
  then show ?case by simp
next
  case (Suc n)
  let ?d = "min (of_int maxWait / 2) (1::rat)"
  show ?case
  proof (cases "now W (calls s) - entry < of_int maxWait \<or> maxWait = 0")
    case False
    with Suc.prems have "s' = s" by simp
    then have "set [] \<subseteq> {PollPass, Wait ?d} \<and> run fuel W [] s = Some (s', [])" by simp
    then show ?thesis by blast
  next
    case True
    obtain s1 r1 where p: "poll_pass W s = (s1, r1)" by (cases "poll_pass W s")
    from exec_PollPass [OF p] obtain o1 where x: "exec fuel W PollPass s = Some (s1, o1)" by blast
    show ?thesis
    proof (cases "r1 = Inr None \<and> maxWait \<noteq> 0")
      case False
      with Suc.prems True p have "s' = s1" by (auto split: sum.splits option.splits)
      with x have "set [PollPass] \<subseteq> {PollPass, Wait ?d} \<and> run fuel W [PollPass] s = Some (s', o1)"
        by simp
      then show ?thesis by blast
    next
      case go: True
      with Suc.prems True p
      have "getUpdatedBatchJob_loop n W maxWait entry (called (Sleep ?d) s1) = Some (s', r)"
        by simp
      from Suc.IH [OF this] obtain ops tr where
        o: "set ops \<subseteq> {PollPass, Wait ?d}" and r: "run fuel W ops (called (Sleep ?d) s1) = Some (s', tr)"
        by blast
      from x r have "run fuel W (PollPass # Wait ?d # ops) s = Some (s', o1 @ tr)" by simp
      moreover from o have "set (PollPass # Wait ?d # ops) \<subseteq> {PollPass, Wait ?d}" by simp
      ultimately show ?thesis by blast
    qed
  qed
qed

text \<open>What a call of \<open>getUpdatedBatchJob\<close> does to a consistent registry.\<close>

lemma getUpdatedBatchJob_loop_effect:
  "registry_inv s \<Longrightarrow> getUpdatedBatchJob_loop n W maxWait entry s = Some (s', r) \<Longrightarrow>
   registry_inv s' \<and> set (aws_id_to_bs_id s') \<subseteq> set (aws_id_to_bs_id s) \<and>
   (\<forall>p\<in>set (aws_id_to_bs_id s) - set (aws_id_to_bs_id s'). reported_terminal W (calls s) (fst p))"
proof (induction n arbitrary: s)
  case 0
  then show ?case by simp
next
  case (Suc n)
  let ?d = "min (of_int maxWait / 2) (1::rat)"
  show ?case
  proof (cases "now W (calls s) - entry < of_int maxWait \<or> maxWait = 0")
    case False
    with Suc.prems have "s' = s" by simp
    with Suc.prems(1) show ?thesis by simp
  next
    case True
    obtain s1 r1 where p: "poll_pass W s = (s1, r1)" by (cases "poll_pass W s")
    from poll_pass_effect [OF Suc.prems(1) p] have
      1: "registry_inv s1" and 2: "set (aws_id_to_bs_id s1) \<subseteq> set (aws_id_to_bs_id s)"
      and 3: "\<forall>p\<in>set (aws_id_to_bs_id s) - set (aws_id_to_bs_id s1). reported_terminal W (calls s) (fst p)"
      by blast+
    show ?thesis
    proof (cases "r1 = Inr None \<and> maxWait \<noteq> 0")
      case False
      with Suc.prems True p have "s' = s1" by (auto split: sum.splits option.splits)
      with 1 2 3 show ?thesis by simp
    next
      case go: True
      let ?s2 = "called (Sleep ?d) s1"
      from go Suc.prems True p
      have l: "getUpdatedBatchJob_loop n W maxWait entry ?s2 = Some (s', r)" by simp
      from 1 have "registry_inv ?s2" by simp
      from Suc.IH [OF this l] have
        4: "registry_inv s'" and 5: "set (aws_id_to_bs_id s') \<subseteq> set (aws_id_to_bs_id s1)"
        and 6: "\<forall>p\<in>set (aws_id_to_bs_id s1) - set (aws_id_to_bs_id s'). reported_terminal W (calls ?s2) (fst p)"
        by simp_all
      from poll_pass_calls [OF p] obtain cs where cs: "calls s1 = calls s @ cs" by blast
      have 7: "reported_terminal W (calls s) (fst q)"
        if q: "q \<in> set (aws_id_to_bs_id s) - set (aws_id_to_bs_id s')" for q
      proof (cases "q \<in> set (aws_id_to_bs_id s1)")
        case False
        with q 3 show ?thesis by blast
      next
        case True
        with q 6 have "reported_terminal W (calls ?s2) (fst q)" by blast
        with cs have "reported_terminal W (calls s @ (cs @ [Sleep ?d])) (fst q)" by simp
        then show ?thesis by (rule reported_terminal_later)
      qed
      from 2 5 have "set (aws_id_to_bs_id s') \<subseteq> set (aws_id_to_bs_id s)" by blast
      with 4 7 show ?thesis by blast
    qed
  qed
qed

text \<open>
  C1. Take any sequence of submissions, polling passes, sleeps, kills and shutdowns from
  the initial state, in which the internal ids and the handles handed out are not reused.
  Then no job id occurs in two completion events, and after a cancel call for the handle
  of a job no completion event for that job follows. \<open>_try_terminate\<close> leaves the killed
  flag set whatever the cancel call answers, also when it raises. A pass over a
  consistent registry never returns an event for a job whose handle is flagged, and
  when such a pass runs to its end and saw a terminal report for the handle, the handle's
  registry entry and its flag are both gone.
\<close>

theorem completion_at_most_once:
  assumes r: "run fuel W ops init = Some (s, tr)"
    and d: "distinct (map fst (issued tr))" "distinct (map snd (issued tr))"
  shows "distinct (emitted tr) \<and>
     (\<forall>tr1 tr2 b a ev. tr = tr1 @ Cancelled a # tr2 \<and> (b, a) \<in> set (issued tr) \<and>
        Emitted ev \<in> set tr2 \<longrightarrow> jobID ev \<noteq> b) \<and>
     (try_terminate W a0 s0 = (s1, r1) \<longrightarrow>
        a0 \<in> killed_job_aws_ids s1 \<and> (\<exists>cs. calls s1 = calls s0 @ cs @ [TerminateJob a0])) \<and>
     (registry_inv s0 \<and> getUpdatedLocalJob W (calls s0) = None \<and>
      (a0, b0) \<in> set (aws_id_to_bs_id s0) \<and> a0 \<in> killed_job_aws_ids s0 \<and>
      poll_pass W s0 = (s2, r2) \<longrightarrow>
        (\<forall>ev. r2 = Inr (Some ev) \<longrightarrow> jobID ev \<noteq> b0) \<and>
        (r2 = Inr None \<and>
         (\<exists>jd\<in>set (yielded W (calls s0 @ [GetUpdatedLocalJob]) (batches (map fst (aws_id_to_bs_id s0)))).
             is_terminal jd \<and> jobId jd = a0) \<longrightarrow>
           a0 \<notin> fst ` set (aws_id_to_bs_id s2) \<and> b0 \<notin> fst ` set (bs_id_to_aws_id s2) \<and>
           a0 \<notin> killed_job_aws_ids s2))"
proof -
  from run_trace_inv [OF r d] have J: "trace_inv (set (issued tr)) s tr" .
  then have 1: "distinct (emitted tr)" by (rule trace_invD)
  from J have "none_after_cancel (set (issued tr)) tr" by (rule trace_invD)
  then have 2: "\<forall>tr1 tr2 b a ev. tr = tr1 @ Cancelled a # tr2 \<and> (b, a) \<in> set (issued tr) \<and>
        Emitted ev \<in> set tr2 \<longrightarrow> jobID ev \<noteq> b"
    unfolding none_after_cancel_def .
  have 3: "try_terminate W a0 s0 = (s1, r1) \<longrightarrow>
        a0 \<in> killed_job_aws_ids s1 \<and> (\<exists>cs. calls s1 = calls s0 @ cs @ [TerminateJob a0])"
    using try_terminate_effect [of W a0 s0 s1 r1] by auto
  have 4: "(\<forall>ev. r2 = Inr (Some ev) \<longrightarrow> jobID ev \<noteq> b0) \<and>
        (r2 = Inr None \<and>
         (\<exists>jd\<in>set (yielded W (calls s0 @ [GetUpdatedLocalJob]) (batches (map fst (aws_id_to_bs_id s0)))).
             is_terminal jd \<and> jobId jd = a0) \<longrightarrow>
           a0 \<notin> fst ` set (aws_id_to_bs_id s2) \<and> b0 \<notin> fst ` set (bs_id_to_aws_id s2) \<and>
           a0 \<notin> killed_job_aws_ids s2)"
    if i: "registry_inv s0" and l: "getUpdatedLocalJob W (calls s0) = None"
      and m: "(a0, b0) \<in> set (aws_id_to_bs_id s0)" and k: "a0 \<in> killed_job_aws_ids s0"
      and p: "poll_pass W s0 = (s2, r2)"
  proof -
    from poll_pass_effect [OF i p] l have
      i2: "registry_inv s2" and sub: "set (aws_id_to_bs_id s2) \<subseteq> set (aws_id_to_bs_id s0)"
      and em: "\<forall>ev. r2 = Inr (Some ev) \<longrightarrow>
           (\<exists>a. (a, jobID ev) \<in> set (aws_id_to_bs_id s0) \<and> a \<notin> killed_job_aws_ids s0)"
      and fin: "r2 = Inr None \<longrightarrow>
           (\<forall>jd\<in>set (yielded W (calls s0 @ [GetUpdatedLocalJob]) (batches (map fst (aws_id_to_bs_id s0)))).
               is_terminal jd \<longrightarrow>
               jobId jd \<notin> fst ` set (aws_id_to_bs_id s2) \<and> jobId jd \<notin> killed_job_aws_ids s2)"
      by blast+
    from i have db: "distinct (map fst (bs_id_to_aws_id s0))" by (simp add: registry_inv_def)
    from m i have mb: "(b0, a0) \<in> set (bs_id_to_aws_id s0)" by (simp add: registry_inv_swap)
    have one: "a = a0" if "(a, b0) \<in> set (aws_id_to_bs_id s0)" for a
    proof -
      from that i have "(b0, a) \<in> set (bs_id_to_aws_id s0)" by (simp add: registry_inv_swap)
      with mb db show ?thesis by (metis eq_key_imp_eq_value)
    qed
    have A: "\<forall>ev. r2 = Inr (Some ev) \<longrightarrow> jobID ev \<noteq> b0"
      using em one k by blast
    have B: "a0 \<notin> fst ` set (aws_id_to_bs_id s2) \<and> b0 \<notin> fst ` set (bs_id_to_aws_id s2) \<and>
           a0 \<notin> killed_job_aws_ids s2"
      if "r2 = Inr None" "jd \<in> set (yielded W (calls s0 @ [GetUpdatedLocalJob]) (batches (map fst (aws_id_to_bs_id s0))))"
        "is_terminal jd" "jobId jd = a0" for jd
    proof -
      from fin that have g: "a0 \<notin> fst ` set (aws_id_to_bs_id s2)" "a0 \<notin> killed_job_aws_ids s2"
        by blast+
      have "b0 \<notin> fst ` set (bs_id_to_aws_id s2)"
      proof
        assume "b0 \<in> fst ` set (bs_id_to_aws_id s2)"
        then obtain a where a: "(b0, a) \<in> set (bs_id_to_aws_id s2)" by force
        with i2 have a2: "(a, b0) \<in> set (aws_id_to_bs_id s2)" by (simp add: registry_inv_swap)
        with sub one have "a = a0" by blast
        with a2 g(1) show False by force
      qed
      with g show ?thesis by simp
    qed
    from A B show ?thesis by blast
  qed
  from 1 2 3 4 show ?thesis by blast
qed

theorem completion_at_most_once_witness:
  "map_option snd (run 1 busy_world example_run init) = Some example_trace \<and>
   distinct (map fst (issued example_trace)) \<and> distinct (map snd (issued example_trace)) \<and>
   distinct (emitted example_trace) \<and> emitted example_trace = [5] \<and>
   cancels example_trace = [''job-3'']"
proof -
  have t: "map_option snd (run 1 busy_world example_run init) = Some example_trace"
    by code_simp
  then obtain s where r: "run 1 busy_world example_run init = Some (s, example_trace)"
    by (cases "run 1 busy_world example_run init") auto
  have d: "distinct (map fst (issued example_trace))" "distinct (map snd (issued example_trace))"
    by (simp_all add: example_trace_def)
  have e: "emitted example_trace = [5]" "cancels example_trace = [''job-3'']"
    by (simp_all add: example_trace_def)
  from completion_at_most_once [OF r d] have "distinct (emitted example_trace)" by blast
  with t d e show ?thesis by simp
qed

text \<open>
  C2. Take any sequence of submissions, polling passes, sleeps, kills and shutdowns from
  the initial state, in which the internal ids and the handles handed out are not reused.
  In the state reached, the two dictionaries of the registry are inverse to each other,
  no internal id and no handle occurs twice in either, the pairs registered are those
  issued and not yet taken out by a pass, and the size of the registry is the number of
  jobs issued minus the number taken out. Operation by operation: \<open>issueBatchJob\<close> leaves
  both dictionaries alone when it raises or hands the job to the local sub-scheduler,
  and otherwise sets the pair in both, which keeps them inverse when the id and the
  handle are new; \<open>getUpdatedBatchJob\<close>, which is a run of passes and sleeps, keeps them
  inverse and takes out only pairs whose handle the backend has reported in a terminal
  state; \<open>killBatchJobs\<close> and \<open>shutdown\<close> leave both dictionaries as they are.
\<close>

theorem registry_maps_inverse:
  assumes r: "run fuel W ops init = Some (s, tr)"
    and d: "distinct (map fst (issued tr))" "distinct (map snd (issued tr))"
  shows "registry_inv s \<and>
     (\<forall>a b. (map_of (aws_id_to_bs_id s) a = Some b) = (map_of (bs_id_to_aws_id s) b = Some a)) \<and>
     distinct (map fst (bs_id_to_aws_id s)) \<and> distinct (map snd (bs_id_to_aws_id s)) \<and>
     distinct (map fst (aws_id_to_bs_id s)) \<and> distinct (map snd (aws_id_to_bs_id s)) \<and>
     set (bs_id_to_aws_id s) = set (issued tr) - set (forgotten tr) \<and>
     length (aws_id_to_bs_id s) = length (bs_id_to_aws_id s) \<and>
     length (bs_id_to_aws_id s) = length (issued tr) - length (forgotten tr) \<and>
     (issueBatchJob W jd s0 = (s1, r1) \<longrightarrow>
        (case r1 of
           Inl e \<Rightarrow> bs_id_to_aws_id s1 = bs_id_to_aws_id s0 \<and> aws_id_to_bs_id s1 = aws_id_to_bs_id s0
         | Inr b \<Rightarrow>
             (case handleLocalJob W (calls s0) jd of
                Some l \<Rightarrow> bs_id_to_aws_id s1 = bs_id_to_aws_id s0 \<and>
                          aws_id_to_bs_id s1 = aws_id_to_bs_id s0
              | None \<Rightarrow>
                  (\<exists>a. bs_id_to_aws_id s1 = dict_set (bs_id_to_aws_id s0) b a \<and>
                       aws_id_to_bs_id s1 = dict_set (aws_id_to_bs_id s0) a b \<and>
                       (registry_inv s0 \<and> b \<notin> fst ` set (bs_id_to_aws_id s0) \<and>
                        a \<notin> fst ` set (aws_id_to_bs_id s0) \<longrightarrow>
                          registry_inv s1 \<and>
                          set (bs_id_to_aws_id s1) = insert (b, a) (set (bs_id_to_aws_id s0))))))) \<and>
     (registry_inv s0 \<and> getUpdatedBatchJob n W maxWait s0 = Some (s2, r2) \<longrightarrow>
        registry_inv s2 \<and> set (aws_id_to_bs_id s2) \<subseteq> set (aws_id_to_bs_id s0) \<and>
        (\<forall>p\<in>set (aws_id_to_bs_id s0) - set (aws_id_to_bs_id s2).
            reported_terminal W (calls s0) (fst p)) \<and>
        (\<exists>ops2 tr2. set ops2 \<subseteq> {PollPass, Wait (min (of_int maxWait / 2) 1)} \<and>
            run fuel W ops2 s0 = Some (s2, tr2))) \<and>
     (killBatchJobs fuel W ids s0 = Some (s3, r3) \<longrightarrow>
        bs_id_to_aws_id s3 = bs_id_to_aws_id s0 \<and> aws_id_to_bs_id s3 = aws_id_to_bs_id s0) \<and>
     (shutdown W s0 = (s4, r4) \<longrightarrow>
        bs_id_to_aws_id s4 = bs_id_to_aws_id s0 \<and> aws_id_to_bs_id s4 = aws_id_to_bs_id s0)"
proof -
  from run_trace_inv [OF r d] have J: "trace_inv (set (issued tr)) s tr" .
  note j = trace_invD [OF J]
  have c1: "registry_inv s" by (rule j(1))
  have c2: "\<forall>a b. (map_of (aws_id_to_bs_id s) a = Some b) = (map_of (bs_id_to_aws_id s) b = Some a)"
    using registry_inv_lookup [OF c1] by blast
  from c1 have c3: "distinct (map fst (bs_id_to_aws_id s))"
    and c5: "distinct (map fst (aws_id_to_bs_id s))"
    by (simp_all add: registry_inv_def)
  note c4 = registry_inv_handles(1) [OF c1] and c6 = registry_inv_handles(2) [OF c1]
  note c7 = j(9)
  have c8: "length (aws_id_to_bs_id s) = length (bs_id_to_aws_id s)"
    using registry_inv_length [OF c1] by simp
  from d(1) have di: "distinct (issued tr)" by (simp add: distinct_map)
  from c3 have db: "distinct (bs_id_to_aws_id s)" by (simp add: distinct_map)
  from di j(10) db j(11) j(9)
  have c9: "length (bs_id_to_aws_id s) = length (issued tr) - length (forgotten tr)"
    by (rule length_outstanding)
  have c10: "issueBatchJob W jd s0 = (s1, r1) \<longrightarrow>
        (case r1 of
           Inl e \<Rightarrow> bs_id_to_aws_id s1 = bs_id_to_aws_id s0 \<and> aws_id_to_bs_id s1 = aws_id_to_bs_id s0
         | Inr b \<Rightarrow>
             (case handleLocalJob W (calls s0) jd of
                Some l \<Rightarrow> bs_id_to_aws_id s1 = bs_id_to_aws_id s0 \<and>
                          aws_id_to_bs_id s1 = aws_id_to_bs_id s0
              | None \<Rightarrow>
                  (\<exists>a. bs_id_to_aws_id s1 = dict_set (bs_id_to_aws_id s0) b a \<and>
                       aws_id_to_bs_id s1 = dict_set (aws_id_to_bs_id s0) a b \<and>
                       (registry_inv s0 \<and> b \<notin> fst ` set (bs_id_to_aws_id s0) \<and>
                        a \<notin> fst ` set (aws_id_to_bs_id s0) \<longrightarrow>
                          registry_inv s1 \<and>
                          set (bs_id_to_aws_id s1) = insert (b, a) (set (bs_id_to_aws_id s0))))))"
  proof
    assume i: "issueBatchJob W jd s0 = (s1, r1)"
    from issueBatchJob_effect [OF i] have reg: "(case r1 of
        Inl e \<Rightarrow> bs_id_to_aws_id s1 = bs_id_to_aws_id s0 \<and> aws_id_to_bs_id s1 = aws_id_to_bs_id s0
      | Inr b \<Rightarrow>
          (case handleLocalJob W (calls s0) jd of
             Some l \<Rightarrow> bs_id_to_aws_id s1 = bs_id_to_aws_id s0 \<and> aws_id_to_bs_id s1 = aws_id_to_bs_id s0
           | None \<Rightarrow> \<exists>a. bs_id_to_aws_id s1 = dict_set (bs_id_to_aws_id s0) b a \<and>
                         aws_id_to_bs_id s1 = dict_set (aws_id_to_bs_id s0) a b))"
      by blast
    show "(case r1 of
           Inl e \<Rightarrow> bs_id_to_aws_id s1 = bs_id_to_aws_id s0 \<and> aws_id_to_bs_id s1 = aws_id_to_bs_id s0
         | Inr b \<Rightarrow>
             (case handleLocalJob W (calls s0) jd of
                Some l \<Rightarrow> bs_id_to_aws_id s1 = bs_id_to_aws_id s0 \<and>
                          aws_id_to_bs_id s1 = aws_id_to_bs_id s0
              | None \<Rightarrow>
                  (\<exists>a. bs_id_to_aws_id s1 = dict_set (bs_id_to_aws_id s0) b a \<and>
                       aws_id_to_bs_id s1 = dict_set (aws_id_to_bs_id s0) a b \<and>
                       (registry_inv s0 \<and> b \<notin> fst ` set (bs_id_to_aws_id s0) \<and>
                        a \<notin> fst ` set (aws_id_to_bs_id s0) \<longrightarrow>
                          registry_inv s1 \<and>
                          set (bs_id_to_aws_id s1) = insert (b, a) (set (bs_id_to_aws_id s0))))))"
    proof (cases r1)
      case (Inl e)
      with reg show ?thesis by simp
    next
      case (Inr b)
      show ?thesis
      proof (cases "handleLocalJob W (calls s0) jd")
        case (Some l)
        with reg Inr show ?thesis by simp
      next
        case None
        with reg Inr obtain a where e: "bs_id_to_aws_id s1 = dict_set (bs_id_to_aws_id s0) b a"
          "aws_id_to_bs_id s1 = dict_set (aws_id_to_bs_id s0) a b" by auto
        have "registry_inv s1 \<and> set (bs_id_to_aws_id s1) = insert (b, a) (set (bs_id_to_aws_id s0))"
          if "registry_inv s0" "b \<notin> fst ` set (bs_id_to_aws_id s0)" "a \<notin> fst ` set (aws_id_to_bs_id s0)"
          using registry_inv_insert [OF that e] by blast
        with e have "\<exists>a. bs_id_to_aws_id s1 = dict_set (bs_id_to_aws_id s0) b a \<and>
                       aws_id_to_bs_id s1 = dict_set (aws_id_to_bs_id s0) a b \<and>
                       (registry_inv s0 \<and> b \<notin> fst ` set (bs_id_to_aws_id s0) \<and>
                        a \<notin> fst ` set (aws_id_to_bs_id s0) \<longrightarrow>
                          registry_inv s1 \<and>
                          set (bs_id_to_aws_id s1) = insert (b, a) (set (bs_id_to_aws_id s0)))"
          by blast
        with Inr None show ?thesis by simp
      qed
    qed
  qed
  have c11: "registry_inv s0 \<and> getUpdatedBatchJob n W maxWait s0 = Some (s2, r2) \<longrightarrow>
        registry_inv s2 \<and> set (aws_id_to_bs_id s2) \<subseteq> set (aws_id_to_bs_id s0) \<and>
        (\<forall>p\<in>set (aws_id_to_bs_id s0) - set (aws_id_to_bs_id s2).
            reported_terminal W (calls s0) (fst p)) \<and>
        (\<exists>ops2 tr2. set ops2 \<subseteq> {PollPass, Wait (min (of_int maxWait / 2) 1)} \<and>
            run fuel W ops2 s0 = Some (s2, tr2))"
  proof
    assume a: "registry_inv s0 \<and> getUpdatedBatchJob n W maxWait s0 = Some (s2, r2)"
    then have i: "registry_inv s0"
      and g: "getUpdatedBatchJob_loop n W maxWait (now W (calls s0)) s0 = Some (s2, r2)"
      by (simp_all add: getUpdatedBatchJob_def)
    from getUpdatedBatchJob_loop_effect [OF i g] getUpdatedBatchJob_loop_passes [OF g, of fuel]
    show "registry_inv s2 \<and> set (aws_id_to_bs_id s2) \<subseteq> set (aws_id_to_bs_id s0) \<and>
        (\<forall>p\<in>set (aws_id_to_bs_id s0) - set (aws_id_to_bs_id s2).
            reported_terminal W (calls s0) (fst p)) \<and>
        (\<exists>ops2 tr2. set ops2 \<subseteq> {PollPass, Wait (min (of_int maxWait / 2) 1)} \<and>
            run fuel W ops2 s0 = Some (s2, tr2))"
      by blast
  qed
  have c12: "killBatchJobs fuel W ids s0 = Some (s3, r3) \<longrightarrow>
        bs_id_to_aws_id s3 = bs_id_to_aws_id s0 \<and> aws_id_to_bs_id s3 = aws_id_to_bs_id s0"
    using killBatchJobs_effect [of fuel W ids s0 s3 r3] by (simp add: same_registry_def)
  have c13: "shutdown W s0 = (s4, r4) \<longrightarrow>
        bs_id_to_aws_id s4 = bs_id_to_aws_id s0 \<and> aws_id_to_bs_id s4 = aws_id_to_bs_id s0"
    using shutdown_effect [of W s0 s4 r4] by simp
  from c1 c2 c3 c4 c5 c6 c7 c8 c9 c10 c11 c12 c13 show ?thesis by (intro conjI)
qed

theorem registry_maps_inverse_witness:
  "\<exists>s. run 1 killable_world kill_run init = Some (s, kill_trace) \<and>
      distinct (map fst (issued kill_trace)) \<and> distinct (map snd (issued kill_trace)) \<and>
      bs_id_to_aws_id s = [(5, ''job-6'')] \<and> aws_id_to_bs_id s = [(''job-6'', 5)] \<and>
      registry_inv s \<and>
      length (bs_id_to_aws_id s) = length (issued kill_trace) - length (forgotten kill_trace)"
proof -
  have t: "map_option (\<lambda>(s, tr). (bs_id_to_aws_id s, aws_id_to_bs_id s, tr))
             (run 1 killable_world kill_run init) =
           Some ([(5, ''job-6'')], [(''job-6'', 5)], kill_trace)"
    by code_simp
  then obtain s where r: "run 1 killable_world kill_run init = Some (s, kill_trace)"
    and m: "bs_id_to_aws_id s = [(5, ''job-6'')]" "aws_id_to_bs_id s = [(''job-6'', 5)]"
    by (cases "run 1 killable_world kill_run init") auto
  have d: "distinct (map fst (issued kill_trace))" "distinct (map snd (issued kill_trace))"
    by (simp_all add: kill_trace_def)
  from registry_maps_inverse [OF r d] have "registry_inv s"
    and "length (bs_id_to_aws_id s) = length (issued kill_trace) - length (forgotten kill_trace)"
    by blast+
  with r d m show ?thesis by blast
qed

end
